theory Spec2Isabelle
  imports Main "HOL-Library.Word" "HOL-Library.Signed_Division" "HOL-Library.Monad_Syntax"
begin

unbundle bit_operations_syntax

declare Option.bind_cong [fundef_cong]

section \<open>sonicconv: the SonicArranger packed format converter\<close>

text \<open>
  A shallow embedding of \<^verbatim>\<open>src/Amiga/sonicconv.c\<close> (SAS/C 6.5 on the Amiga: a big-endian
  machine, \<^verbatim>\<open>short\<close> of 16 bits, \<^verbatim>\<open>long\<close>, \<^verbatim>\<open>size_t\<close> and pointers of 32 bits).

  Values of type \<^verbatim>\<open>long\<close> are 32-bit words read as two's complement (\<open>sint\<close>).
  Every function that the C text leaves undefined at some input returns \<open>None\<close> there:
  \<^item> signed \<^verbatim>\<open>long\<close> arithmetic whose result does not fit 32 bits;
  \<^item> a read of a byte outside the input buffer \<^verbatim>\<open>dat\<close>, or outside the sample table;
  \<^item> a read through a null pointer.
  Unsigned arithmetic (\<^verbatim>\<open>size_t\<close>) wraps around, as C defines it.
\<close>

subsection \<open>Machine values\<close>

type_synonym byte = "8 word"
type_synonym ushort = "16 word"
type_synonym long = "32 word"

definition in_long :: "int \<Rightarrow> bool" where
  "in_long k \<longleftrightarrow> - (2 ^ 31) \<le> k \<and> k < 2 ^ 31"

definition add_long :: "long \<Rightarrow> long \<Rightarrow> long option" where
  "add_long a b = (if in_long (sint a + sint b) then Some (a + b) else None)"

definition sub_long :: "long \<Rightarrow> long \<Rightarrow> long option" where
  "sub_long a b = (if in_long (sint a - sint b) then Some (a - b) else None)"

definition mul_long :: "long \<Rightarrow> long \<Rightarrow> long option" where
  "mul_long a b = (if in_long (sint a * sint b) then Some (a * b) else None)"

text \<open>C's division of a \<^verbatim>\<open>long\<close> by a positive constant: the quotient is truncated towards zero.\<close>

definition div_long :: "long \<Rightarrow> int \<Rightarrow> long" where
  "div_long a d = word_of_int (sint a sdiv d)"

text \<open>Big-endian storage of multi-byte values, the byte order of the 68000.\<close>

definition be_word :: "byte list \<Rightarrow> 'a::len word" where
  "be_word bs = foldl (\<lambda>w b. push_bit 8 w OR ucast b) 0 bs"

definition bytes_of_long :: "long \<Rightarrow> byte list" where
  "bytes_of_long w = [ucast (drop_bit 24 w), ucast (drop_bit 16 w), ucast (drop_bit 8 w), ucast w]"

definition ascii :: "string \<Rightarrow> byte list" where
  "ascii s = map (\<lambda>c. of_nat (of_char c)) s"

subsection \<open>The input buffer\<close>

text \<open>
  \<^verbatim>\<open>dat\<close> is the list of the bytes of the allocated block; a pointer \<^verbatim>\<open>dat + a\<close> is its
  displacement \<open>a\<close>. \<open>peek dat a n\<close> are the \<open>n\<close> bytes at \<^verbatim>\<open>dat + a\<close>; nothing is read when
  \<open>n = 0\<close>.
\<close>

definition peek :: "byte list \<Rightarrow> int \<Rightarrow> nat \<Rightarrow> byte list option" where
  "peek dat a n =
     (if n = 0 then Some []
      else if 0 \<le> a \<and> a + int n \<le> int (length dat) then Some (take n (drop (nat a) dat))
      else None)"

definition peek_long :: "byte list \<Rightarrow> int \<Rightarrow> long option" where
  "peek_long dat a = map_option be_word (peek dat a 4)"

definition peek_ushort :: "byte list \<Rightarrow> int \<Rightarrow> ushort option" where
  "peek_ushort dat a = map_option be_word (peek dat a 2)"

subsection \<open>Constants of the output format\<close>

text \<open>The character arrays of the source; a string literal carries its terminating zero.\<close>

definition SOAR_ID :: "byte list" where "SOAR_ID = ascii ''SOARV1.0'' @ [0]"
definition STBL_ID :: "byte list" where "STBL_ID = ascii ''STBL'' @ [0]"
definition OVTB_ID :: "byte list" where "OVTB_ID = ascii ''OVTB'' @ [0]"
definition NTBL_ID :: "byte list" where "NTBL_ID = ascii ''NTBL'' @ [0]"
definition INST_ID :: "byte list" where "INST_ID = ascii ''INST'' @ [0]"
definition SD8B_ID :: "byte list" where "SD8B_ID = ascii ''SD8B'' @ [0]"
definition SYWT_ID :: "byte list" where "SYWT_ID = ascii ''SYWT'' @ [0]"
definition SYAR_ID :: "byte list" where "SYAR_ID = ascii ''SYAR'' @ [0]"
definition SYAF_ID :: "byte list" where "SYAF_ID = ascii ''SYAF'' @ [0]"
definition EDAT_ID :: "byte list" where "EDAT_ID = ascii ''EDATV1.1'' @ [0]"

definition EDAT_DATA :: "byte list" where
  "EDAT_DATA = [0, 1, 0, 1, 0, 0, 0, 0x7b, 0, 0, 0, 0, 0, 1, 0, 3]"

subsection \<open>findsong\<close>

function findsong_loop :: "byte list \<Rightarrow> long \<Rightarrow> long \<Rightarrow> long option" where
  "findsong_loop dat max_offset offset =
     (if offset <s max_offset then do {
        p1 \<leftarrow> peek_long dat (sint offset);
        hit \<leftarrow> (if p1 = 0x28 then do {
                  p2 \<leftarrow> peek_long dat (sint offset + 4);
                  Some (p1 <s p2 \<and> p2 <s 0x400) }
                else Some False);
        if hit then Some offset
        else do {
          offset' \<leftarrow> add_long offset 2;
          findsong_loop dat max_offset offset' }
      } else Some (- 1))"
  by pat_completeness auto
termination
proof (relation "measure (\<lambda>(dat, max_offset, offset). nat (sint max_offset - sint offset))")
  fix dat :: "byte list" and max_offset offset offset' :: long
  assume "offset <s max_offset" and "add_long offset 2 = Some offset'"
  then have "sint offset < sint max_offset" and "sint offset' = sint offset + 2"
    by (auto simp: add_long_def in_long_def word_sless_alt sint_word_ariths
        signed_take_bit_int_eq_self split: if_splits)
  then show "((dat, max_offset, offset'), (dat, max_offset, offset))
      \<in> measure (\<lambda>(dat, max_offset, offset). nat (sint max_offset - sint offset))"
    by simp
qed simp

definition findsong :: "byte list \<Rightarrow> long \<Rightarrow> long option" where
  "findsong dat sz = do {
     max_offset \<leftarrow> sub_long sz 0x28;
     findsong_loop dat max_offset 0 }"

subsection \<open>The section layout (the local variables of convert)\<close>

record layout =
  song_offset :: long
  over_offset :: long
  note_offset :: long
  instr_offset :: long
  wave_offset :: long
  adsr_offset :: long
  amf_offset :: long
  sample_offset :: long
  song_len :: long
  over_len :: long
  note_len :: long
  instr_len :: long
  wave_len :: long
  adsr_len :: long
  amf_len :: long
  song_cnt :: long
  over_cnt :: long
  note_cnt :: long
  instr_cnt :: long
  wave_cnt :: long
  adsr_cnt :: long
  amf_cnt :: long
  sample_cnt :: long

text \<open>\<^verbatim>\<open>offset + *((long *)(dat + offset + k))\<close>\<close>

definition abs_offset :: "byte list \<Rightarrow> long \<Rightarrow> int \<Rightarrow> long option" where
  "abs_offset dat offset k = do {
     r \<leftarrow> peek_long dat (sint offset + k);
     add_long offset r }"

definition resolve :: "byte list \<Rightarrow> long \<Rightarrow> layout option" where
  "resolve dat offset = do {
     song_offset \<leftarrow> abs_offset dat offset 0;
     over_offset \<leftarrow> abs_offset dat offset 4;
     note_offset \<leftarrow> abs_offset dat offset 8;
     instr_offset \<leftarrow> abs_offset dat offset 12;
     wave_offset \<leftarrow> abs_offset dat offset 16;
     adsr_offset \<leftarrow> abs_offset dat offset 20;
     amf_offset \<leftarrow> abs_offset dat offset 24;
     sample_offset \<leftarrow> abs_offset dat offset 28;
     song_len \<leftarrow> sub_long over_offset song_offset;
     over_len \<leftarrow> sub_long note_offset over_offset;
     note_len \<leftarrow> sub_long instr_offset note_offset;
     instr_len \<leftarrow> sub_long wave_offset instr_offset;
     wave_len \<leftarrow> sub_long adsr_offset wave_offset;
     adsr_len \<leftarrow> sub_long amf_offset adsr_offset;
     amf_len \<leftarrow> sub_long sample_offset amf_offset;
     sample_cnt \<leftarrow> peek_long dat (sint sample_offset);
     Some \<lparr> song_offset = song_offset, over_offset = over_offset, note_offset = note_offset,
            instr_offset = instr_offset, wave_offset = wave_offset, adsr_offset = adsr_offset,
            amf_offset = amf_offset, sample_offset = sample_offset,
            song_len = song_len, over_len = over_len, note_len = note_len,
            instr_len = instr_len, wave_len = wave_len, adsr_len = adsr_len, amf_len = amf_len,
            song_cnt = div_long song_len 12, over_cnt = div_long over_len 16,
            note_cnt = div_long note_len 4, instr_cnt = div_long instr_len 152,
            wave_cnt = div_long wave_len 128, adsr_cnt = div_long adsr_len 128,
            amf_cnt = div_long amf_len 128, sample_cnt = sample_cnt \<rparr> }"

subsection \<open>The sample table\<close>

text \<open>
  \<^verbatim>\<open>sample_info\<close>: the field \<^verbatim>\<open>length\<close> is \<open>length_raw\<close> here. The pointer
  \<^verbatim>\<open>name_from_instr\<close> is \<open>None\<close> when null and \<open>Some a\<close> when it is \<^verbatim>\<open>dat + a\<close>.
\<close>

record sample_info =
  length_raw :: long
  length_from_instr :: long
  repeat_from_instr :: long
  name_from_instr :: "int option"

text \<open>An entry after \<^verbatim>\<open>memset(samples_info, 0, samples_info_size)\<close>.\<close>

definition zero_info :: sample_info where
  "zero_info = \<lparr> length_raw = 0, length_from_instr = 0, repeat_from_instr = 0,
                 name_from_instr = None \<rparr>"

text \<open>\<^verbatim>\<open>(*samples_info)[i]\<close>, for reading and for writing a field.\<close>

definition entry :: "sample_info list \<Rightarrow> int \<Rightarrow> sample_info option" where
  "entry si i = (if 0 \<le> i \<and> i < int (length si) then Some (si ! nat i) else None)"

definition set_entry :: "sample_info list \<Rightarrow> int \<Rightarrow> (sample_info \<Rightarrow> sample_info)
    \<Rightarrow> sample_info list option" where
  "set_entry si i f = (if 0 \<le> i \<and> i < int (length si) then Some (si[nat i := f (si ! nat i)]) else None)"

text \<open>Lines 158 to 163: the lengths of the samples, and their sum.\<close>

function read_lengths :: "byte list \<Rightarrow> long \<Rightarrow> long \<Rightarrow> long \<Rightarrow> long \<times> sample_info list
    \<Rightarrow> (long \<times> sample_info list) option" where
  "read_lengths dat smp_offset smp_cnt i (sample_len, si) =
     (if i <s smp_cnt then do {
        i4 \<leftarrow> mul_long i 4;
        s_len \<leftarrow> peek_long dat (sint smp_offset + 4 + sint i4);
        sample_len' \<leftarrow> add_long sample_len s_len;
        si' \<leftarrow> set_entry si (sint i) (\<lambda>s. s\<lparr>length_raw := s_len\<rparr>);
        i' \<leftarrow> add_long i 1;
        read_lengths dat smp_offset smp_cnt i' (sample_len', si')
      } else Some (sample_len, si))"
  by pat_completeness auto
termination
proof (relation "measure (\<lambda>(dat, smp_offset, smp_cnt, i, st). nat (sint smp_cnt - sint i))")
  fix dat :: "byte list" and smp_offset smp_cnt i i' sample_len sample_len' :: long
    and si si' :: "sample_info list"
  assume "i <s smp_cnt" and "add_long i 1 = Some i'"
  then have "sint i < sint smp_cnt" and "sint i' = sint i + 1"
    by (auto simp: add_long_def in_long_def word_sless_alt sint_word_ariths
        signed_take_bit_int_eq_self split: if_splits)
  then show "((dat, smp_offset, smp_cnt, i', sample_len', si'),
       (dat, smp_offset, smp_cnt, i, sample_len, si))
      \<in> measure (\<lambda>(dat, smp_offset, smp_cnt, i, st). nat (sint smp_cnt - sint i))"
    by simp
qed simp

subsection \<open>Diagnostics\<close>

text \<open>One constructor for each \<^verbatim>\<open>printf\<close> of convert, with the values it prints.\<close>

datatype message =
    Stat_Error
  | Cannot_Open_Input
  | Source_Size long
  | Read_Bytes long
  | Read_Failed long long
  | Found_Module long
  | Inconsistent_Sample_Id ushort long
  | Section_Info string long long long
  | Conversion_Written
  | Cannot_Open_Output
  | Cannot_Allocate
  | Song_Not_Found

subsection \<open>Gathering the sample data of the instruments\<close>

text \<open>
  Lines 168 to 180, the body of the loop over the instrument records: \<open>i_offset\<close> is the
  displacement of record \<open>i\<close>. \<^verbatim>\<open>instr_sample_id\<close> is a \<^verbatim>\<open>short\<close>: the 16 bits are read as
  two's complement in the comparisons and in the index.
\<close>

definition join_record :: "byte list \<Rightarrow> long \<Rightarrow> long \<Rightarrow> long
    \<Rightarrow> sample_info list \<times> message list \<Rightarrow> (sample_info list \<times> message list) option" where
  "join_record dat smp_cnt i i_offset st =
     (case st of (si, con) \<Rightarrow> do {
        kind \<leftarrow> peek_ushort dat (sint i_offset);
        if kind = 0 then do {
          instr_sample_id \<leftarrow> peek_ushort dat (sint i_offset + 2);
          if 0 \<le> sint instr_sample_id \<and> sint instr_sample_id < sint smp_cnt then do {
            l \<leftarrow> peek_ushort dat (sint i_offset + 4);
            si \<leftarrow> set_entry si (sint instr_sample_id) (\<lambda>s. s\<lparr>length_from_instr := ucast l\<rparr>);
            r \<leftarrow> peek_ushort dat (sint i_offset + 6);
            si \<leftarrow> set_entry si (sint instr_sample_id) (\<lambda>s. s\<lparr>repeat_from_instr := ucast r\<rparr>);
            si \<leftarrow> set_entry si (sint instr_sample_id)
                   (\<lambda>s. s\<lparr>name_from_instr := Some (sint i_offset + 0x7a)\<rparr>);
            Some (si, con) }
          else Some (si, con @ [Inconsistent_Sample_Id instr_sample_id i]) }
        else Some (si, con) })"

text \<open>Lines 166 to 182.\<close>

function join_instruments :: "byte list \<Rightarrow> long \<Rightarrow> long \<Rightarrow> long \<Rightarrow> long
    \<Rightarrow> sample_info list \<times> message list \<Rightarrow> (sample_info list \<times> message list) option" where
  "join_instruments dat smp_cnt ins_cnt i i_offset st =
     (if i <s ins_cnt then do {
        st' \<leftarrow> join_record dat smp_cnt i i_offset st;
        i_offset' \<leftarrow> add_long i_offset 0x98;
        i' \<leftarrow> add_long i 1;
        join_instruments dat smp_cnt ins_cnt i' i_offset' st'
      } else Some st)"
  by pat_completeness auto
termination
proof (relation "measure (\<lambda>(dat, smp_cnt, ins_cnt, i, rest). nat (sint ins_cnt - sint i))")
  fix dat :: "byte list" and smp_cnt ins_cnt i i' i_offset i_offset' :: long
    and st st' :: "sample_info list \<times> message list"
  assume "i <s ins_cnt" and "add_long i 1 = Some i'"
  then have "sint i < sint ins_cnt" and "sint i' = sint i + 1"
    by (auto simp: add_long_def in_long_def word_sless_alt sint_word_ariths
        signed_take_bit_int_eq_self split: if_splits)
  then show "((dat, smp_cnt, ins_cnt, i', i_offset', st'),
       (dat, smp_cnt, ins_cnt, i, i_offset, st))
      \<in> measure (\<lambda>(dat, smp_cnt, ins_cnt, i, rest). nat (sint ins_cnt - sint i))"
    by simp
qed simp

subsection \<open>Writing the module\<close>

text \<open>
  \<open>fwrite_bytes src n\<close> is \<^verbatim>\<open>fwrite(src, 1, n, f_out)\<close> from an array or a variable of the
  program, \<open>fwrite_dat dat a n\<close> is \<^verbatim>\<open>fwrite(dat + a, 1, n, f_out)\<close>: the \<^verbatim>\<open>long\<close> \<open>n\<close> becomes
  a \<^verbatim>\<open>size_t\<close>. The file is the list of the bytes written so far; the program does not look
  at what \<^verbatim>\<open>fwrite\<close> returns, and every write is taken to be complete.
\<close>

definition fwrite_bytes :: "byte list \<Rightarrow> nat \<Rightarrow> byte list \<Rightarrow> byte list option" where
  "fwrite_bytes src n out = (if n \<le> length src then Some (out @ take n src) else None)"

definition fwrite_dat :: "byte list \<Rightarrow> int \<Rightarrow> long \<Rightarrow> byte list \<Rightarrow> byte list option" where
  "fwrite_dat dat a n out = do {
     bs \<leftarrow> peek dat a (unat n);
     Some (out @ bs) }"

text \<open>The three calls that write a table: its tag, its count, its bytes.\<close>

definition write_section :: "byte list \<Rightarrow> long \<Rightarrow> byte list \<Rightarrow> long \<Rightarrow> long \<Rightarrow> byte list
    \<Rightarrow> byte list option" where
  "write_section tag cnt dat off len out = do {
     out \<leftarrow> fwrite_bytes tag 4 out;
     out \<leftarrow> fwrite_bytes (bytes_of_long cnt) 4 out;
     fwrite_dat dat (sint off) len out }"

text \<open>
  The four loops of lines 216 to 227 differ in the field they write: \<open>field s\<close> are the
  bytes that the call of \<^verbatim>\<open>fwrite\<close> reads for the entry \<open>s\<close>.
\<close>

function write_each :: "(sample_info \<Rightarrow> byte list option) \<Rightarrow> sample_info list \<Rightarrow> long \<Rightarrow> long
    \<Rightarrow> byte list \<Rightarrow> byte list option" where
  "write_each field si smp_cnt i out =
     (if i <s smp_cnt then do {
        s \<leftarrow> entry si (sint i);
        bs \<leftarrow> field s;
        i' \<leftarrow> add_long i 1;
        write_each field si smp_cnt i' (out @ bs)
      } else Some out)"
  by pat_completeness auto
termination
proof (relation "measure (\<lambda>(field, si, smp_cnt, i, out). nat (sint smp_cnt - sint i))")
  fix field :: "sample_info \<Rightarrow> byte list option" and si :: "sample_info list"
    and smp_cnt i i' :: long and out bs :: "byte list"
  assume "i <s smp_cnt" and "add_long i 1 = Some i'"
  then have "sint i < sint smp_cnt" and "sint i' = sint i + 1"
    by (auto simp: add_long_def in_long_def word_sless_alt sint_word_ariths
        signed_take_bit_int_eq_self split: if_splits)
  then show "((field, si, smp_cnt, i', out @ bs), (field, si, smp_cnt, i, out))
      \<in> measure (\<lambda>(field, si, smp_cnt, i, out). nat (sint smp_cnt - sint i))"
    by simp
qed simp

text \<open>\<^verbatim>\<open>fwrite((*samples_info)[i].name_from_instr, 1, 30, f_out)\<close> reads 30 bytes at the pointer.\<close>

definition name_bytes :: "byte list \<Rightarrow> sample_info \<Rightarrow> byte list option" where
  "name_bytes dat s = (case name_from_instr s of None \<Rightarrow> None | Some a \<Rightarrow> peek dat a 30)"

text \<open>Lines 213 to 228.\<close>

definition write_samples :: "byte list \<Rightarrow> layout \<Rightarrow> sample_info list \<Rightarrow> long \<Rightarrow> byte list
    \<Rightarrow> byte list option" where
  "write_samples dat L si sample_len out = do {
     out \<leftarrow> fwrite_bytes SD8B_ID 4 out;
     out \<leftarrow> fwrite_bytes (bytes_of_long (sample_cnt L)) 4 out;
     out \<leftarrow> write_each (\<lambda>s. Some (bytes_of_long (length_from_instr s))) si (sample_cnt L) 0 out;
     out \<leftarrow> write_each (\<lambda>s. Some (bytes_of_long (repeat_from_instr s))) si (sample_cnt L) 0 out;
     out \<leftarrow> write_each (name_bytes dat) si (sample_cnt L) 0 out;
     out \<leftarrow> write_each (\<lambda>s. Some (bytes_of_long (length_raw s))) si (sample_cnt L) 0 out;
     cnt4 \<leftarrow> mul_long (sample_cnt L) 4;
     fwrite_dat dat (sint (sample_offset L) + 4 + sint cnt4) sample_len out }"

text \<open>Lines 195 to 243.\<close>

definition write_module :: "byte list \<Rightarrow> layout \<Rightarrow> sample_info list \<Rightarrow> long \<Rightarrow> byte list option" where
  "write_module dat L si sample_len = do {
     out \<leftarrow> fwrite_bytes SOAR_ID 8 [];
     out \<leftarrow> write_section STBL_ID (song_cnt L) dat (song_offset L) (song_len L) out;
     out \<leftarrow> write_section OVTB_ID (over_cnt L) dat (over_offset L) (over_len L) out;
     out \<leftarrow> write_section NTBL_ID (note_cnt L) dat (note_offset L) (note_len L) out;
     out \<leftarrow> write_section INST_ID (instr_cnt L) dat (instr_offset L) (instr_len L) out;
     out \<leftarrow> write_samples dat L si sample_len out;
     out \<leftarrow> write_section SYWT_ID (wave_cnt L) dat (wave_offset L) (wave_len L) out;
     out \<leftarrow> write_section SYAR_ID (adsr_cnt L) dat (adsr_offset L) (adsr_len L) out;
     out \<leftarrow> write_section SYAF_ID (amf_cnt L) dat (amf_offset L) (amf_len L) out;
     out \<leftarrow> fwrite_bytes EDAT_ID 8 out;
     fwrite_bytes EDAT_DATA 0x10 out }"

subsection \<open>convert\<close>

text \<open>
  What convert finds outside the program: the outcome of \<^verbatim>\<open>stat\<close> and the value of
  \<^verbatim>\<open>st.st_size\<close> after it, the bytes that \<^verbatim>\<open>fread\<close> delivers from the input file (\<open>None\<close>
  when it cannot be opened), the previous content of the memory that \<^verbatim>\<open>malloc\<close> returns,
  whether the two calls of \<^verbatim>\<open>malloc\<close> succeed, and whether the output file can be opened.
\<close>

record env =
  stat_ok :: bool
  st_size :: long
  in_file :: "byte list option"
  heap :: "nat \<Rightarrow> byte"
  malloc_dat_ok :: bool
  malloc_info_ok :: bool
  out_ok :: bool

text \<open>
  What convert leaves behind: the value it returns, the lines it prints, and the bytes of
  the output file (\<open>None\<close> when the file was never opened).
\<close>

record outcome =
  rc :: int
  console :: "message list"
  out_file :: "byte list option"

text \<open>
  Lines 109 and 110: \<^verbatim>\<open>fread\<close> stores at most \<open>f_in_size\<close> bytes into the block; the rest of the
  block keeps what it held. A null \<^verbatim>\<open>dat\<close> is the buffer with no accessible byte; storing
  into it is undefined.
\<close>

definition fread_all :: "env \<Rightarrow> byte list \<Rightarrow> long \<Rightarrow> (byte list \<times> long) option" where
  "fread_all e content f_in_size =
     (let got = take (unat f_in_size) content in
      if malloc_dat_ok e
      then Some (got @ map (heap e) [length got..<unat f_in_size], of_nat (length got))
      else if got = [] then Some ([], 0) else None)"

text \<open>Lines 184 to 191.\<close>

definition section_report :: "layout \<Rightarrow> long \<Rightarrow> message list" where
  "section_report L sample_len =
     [Section_Info ''song'' (song_offset L) (song_len L) (song_cnt L),
      Section_Info ''over'' (over_offset L) (over_len L) (over_cnt L),
      Section_Info ''note'' (note_offset L) (note_len L) (note_cnt L),
      Section_Info ''inst'' (instr_offset L) (instr_len L) (instr_cnt L),
      Section_Info ''wave'' (wave_offset L) (wave_len L) (wave_cnt L),
      Section_Info ''adsr'' (adsr_offset L) (adsr_len L) (adsr_cnt L),
      Section_Info ''amf '' (amf_offset L) (amf_len L) (amf_cnt L),
      Section_Info ''smpl'' (sample_offset L) sample_len (sample_cnt L)]"

text \<open>
  Lines 152 to 182: the sample table of \<open>sample_cnt * sizeof(sample_info)\<close> bytes (a product
  of \<^verbatim>\<open>size_t\<close>, 16 bytes an entry), zeroed, then the two loops.
\<close>

definition gather :: "byte list \<Rightarrow> layout \<Rightarrow> message list
    \<Rightarrow> (long \<times> sample_info list \<times> message list) option" where
  "gather dat L con = do {
     let samples_info_size = sample_cnt L * 16;
     let si = replicate (unat samples_info_size div 16) zero_info;
     (sample_len, si) \<leftarrow> read_lengths dat (sample_offset L) (sample_cnt L) 0 (0, si);
     (si, con) \<leftarrow> join_instruments dat (sample_cnt L) (instr_cnt L) 0 (instr_offset L) (si, con);
     Some (sample_len, si, con) }"

text \<open>\<^verbatim>\<open>offset >= 0 && offset < f_in_size - 28\<close>\<close>

definition song_found :: "long \<Rightarrow> long \<Rightarrow> bool option" where
  "song_found offset f_in_size =
     (if 0 \<le> sint offset then do {
        lim \<leftarrow> sub_long f_in_size 28;
        Some (offset <s lim) }
      else Some False)"

definition convert :: "env \<Rightarrow> outcome option" where
  "convert e =
     (let con = (if stat_ok e then [] else [Stat_Error]);
          f_in_size = st_size e
      in case in_file e of
        None \<Rightarrow> Some \<lparr> rc = - 1, console = con @ [Cannot_Open_Input], out_file = None \<rparr>
      | Some content \<Rightarrow> do {
          let con = con @ [Source_Size f_in_size];
          (dat, read_len) \<leftarrow> fread_all e content f_in_size;
          let con = con @ [if f_in_size = read_len then Read_Bytes read_len
                           else Read_Failed f_in_size read_len];
          offset \<leftarrow> findsong dat f_in_size;
          found \<leftarrow> song_found offset f_in_size;
          if found then do {
            let con = con @ [Found_Module offset];
            L \<leftarrow> resolve dat offset;
            if malloc_info_ok e then do {
              (sample_len, si, con) \<leftarrow> gather dat L con;
              let con = con @ section_report L sample_len;
              if out_ok e then do {
                out \<leftarrow> write_module dat L si sample_len;
                Some \<lparr> rc = 0, console = con @ [Conversion_Written], out_file = Some out \<rparr> }
              else Some \<lparr> rc = 0, console = con @ [Cannot_Open_Output], out_file = None \<rparr> }
            else Some \<lparr> rc = 0, console = con @ [Cannot_Allocate], out_file = None \<rparr> }
          else Some \<lparr> rc = 0, console = con @ [Song_Not_Found], out_file = None \<rparr> })"

section \<open>Notions used to state the properties\<close>

subsection \<open>The bytes of the buffer\<close>

text \<open>
  The value of the byte at displacement \<open>a\<close>, and the 16-bit and 32-bit values that start
  there, most significant byte first, read as unsigned and as two's complement.
\<close>

definition u8_at :: "byte list \<Rightarrow> int \<Rightarrow> int" where
  "u8_at dat a = uint (dat ! nat a)"

definition u16_at :: "byte list \<Rightarrow> int \<Rightarrow> int" where
  "u16_at dat a = 256 * u8_at dat a + u8_at dat (a + 1)"

definition s16_at :: "byte list \<Rightarrow> int \<Rightarrow> int" where
  "s16_at dat a = (if u16_at dat a < 32768 then u16_at dat a else u16_at dat a - 65536)"

definition u32_at :: "byte list \<Rightarrow> int \<Rightarrow> int" where
  "u32_at dat a = 16777216 * u8_at dat a + 65536 * u8_at dat (a + 1) + 256 * u8_at dat (a + 2)
     + u8_at dat (a + 3)"

definition s32_at :: "byte list \<Rightarrow> int \<Rightarrow> int" where
  "s32_at dat a = (if u32_at dat a < 2147483648 then u32_at dat a else u32_at dat a - 4294967296)"


subsection \<open>The signature of the song data\<close>

text \<open>
  The test of line 64 at the displacement \<open>a\<close>: the 32-bit value there is \<open>0x28\<close> and the next
  one lies strictly between \<open>0x28\<close> and \<open>0x400\<close>. \<open>locate_peek\<close> is the first even displacement
  below \<open>length dat - 0x28\<close> that passes it.
\<close>

definition signature_peek :: "byte list \<Rightarrow> int \<Rightarrow> bool" where
  "signature_peek dat a \<longleftrightarrow>
     (case peek_long dat a of
        None \<Rightarrow> False
      | Some v \<Rightarrow> (case peek_long dat (a + 4) of
          None \<Rightarrow> False
        | Some w \<Rightarrow> v = 0x28 \<and> 0x28 < sint w \<and> sint w < 0x400))"

definition locate_peek :: "byte list \<Rightarrow> int option" where
  "locate_peek dat = find (signature_peek dat) (filter even [0..int (length dat) - 0x28 - 1])"

subsection \<open>Instrument records\<close>

text \<open>
  Record \<open>j\<close> of an instrument table at displacement \<open>base\<close> starts at \<open>base + 152 * j\<close>.
  \<open>refers_peek dat base smp_cnt j k\<close>: the record is a sampled instrument (the 16 bits at its
  start are 0) whose sample id is \<open>k\<close>, and \<open>k\<close> lies in \<open>[0, smp_cnt)\<close>.
\<close>

definition refers_peek :: "byte list \<Rightarrow> int \<Rightarrow> long \<Rightarrow> nat \<Rightarrow> int \<Rightarrow> bool" where
  "refers_peek dat base smp_cnt j k \<longleftrightarrow>
     peek_ushort dat (base + 152 * int j) = Some 0 \<and>
     (case peek_ushort dat (base + 152 * int j + 2) of
        None \<Rightarrow> False
      | Some x \<Rightarrow> sint x = k \<and> 0 \<le> k \<and> k < sint smp_cnt)"

definition with_instr :: "ushort \<Rightarrow> ushort \<Rightarrow> int \<Rightarrow> sample_info \<Rightarrow> sample_info" where
  "with_instr l r a s = s\<lparr>length_from_instr := ucast l, repeat_from_instr := ucast r,
     name_from_instr := Some a\<rparr>"

text \<open>Some record of the instrument table of the layout refers_peek to the sample \<open>k\<close>.\<close>

definition referenced_peek :: "byte list \<Rightarrow> layout \<Rightarrow> int \<Rightarrow> bool" where
  "referenced_peek dat L k \<longleftrightarrow>
     list_ex (\<lambda>j. refers_peek dat (sint (instr_offset L)) (sample_cnt L) j k)
       [0..<nat (sint (instr_cnt L))]"

subsection \<open>The output format\<close>

text \<open>
  The file as section 4.5 of the specification describes it, from the buffer, the layout,
  the sample table and the length of the sample data: \<open>slice dat a n\<close> are the \<open>n\<close> bytes of
  the buffer from displacement \<open>a\<close> on, and the sample entries are the first
  \<open>sample_cnt\<close> entries of the table (none when the count is not positive).
\<close>

definition slice :: "byte list \<Rightarrow> int \<Rightarrow> nat \<Rightarrow> byte list" where
  "slice dat a n = take n (drop (nat a) dat)"

definition table_image :: "string \<Rightarrow> long \<Rightarrow> byte list \<Rightarrow> byte list" where
  "table_image tag cnt raw = ascii tag @ bytes_of_long cnt @ raw"

definition sample_image :: "byte list \<Rightarrow> layout \<Rightarrow> sample_info list \<Rightarrow> long \<Rightarrow> byte list" where
  "sample_image dat L si sample_len =
     (let es = take (nat (sint (sample_cnt L))) si in
      ascii ''SD8B'' @ bytes_of_long (sample_cnt L)
      @ concat (map (\<lambda>s. bytes_of_long (length_from_instr s)) es)
      @ concat (map (\<lambda>s. bytes_of_long (repeat_from_instr s)) es)
      @ concat (map (\<lambda>s. slice dat (the (name_from_instr s)) 30) es)
      @ concat (map (\<lambda>s. bytes_of_long (length_raw s)) es)
      @ slice dat (sint (sample_offset L) + 4 + 4 * sint (sample_cnt L)) (unat sample_len))"

definition soar_image :: "byte list \<Rightarrow> layout \<Rightarrow> sample_info list \<Rightarrow> long \<Rightarrow> byte list" where
  "soar_image dat L si sample_len =
     ascii ''SOARV1.0''
     @ table_image ''STBL'' (song_cnt L) (slice dat (sint (song_offset L)) (unat (song_len L)))
     @ table_image ''OVTB'' (over_cnt L) (slice dat (sint (over_offset L)) (unat (over_len L)))
     @ table_image ''NTBL'' (note_cnt L) (slice dat (sint (note_offset L)) (unat (note_len L)))
     @ table_image ''INST'' (instr_cnt L) (slice dat (sint (instr_offset L)) (unat (instr_len L)))
     @ sample_image dat L si sample_len
     @ table_image ''SYWT'' (wave_cnt L) (slice dat (sint (wave_offset L)) (unat (wave_len L)))
     @ table_image ''SYAR'' (adsr_cnt L) (slice dat (sint (adsr_offset L)) (unat (adsr_len L)))
     @ table_image ''SYAF'' (amf_cnt L) (slice dat (sint (amf_offset L)) (unat (amf_len L)))
     @ ascii ''EDATV1.1''
     @ [0, 1, 0, 1, 0, 0, 0, 0x7b, 0, 0, 0, 0, 0, 1, 0, 3]"


subsection \<open>The signature of the song data, byte by byte\<close>

text \<open>
  The two 32-bit values that start at the displacement \<open>a\<close>: the first is \<open>0x28\<close>, the second
  lies strictly between \<open>0x28\<close> and \<open>0x400\<close>. \<open>locate_spec\<close> is the first even displacement
  from 0 up to, and not including, \<open>length dat - 0x28\<close> where this holds.
\<close>

definition signature_at :: "byte list \<Rightarrow> int \<Rightarrow> bool" where
  "signature_at dat a \<longleftrightarrow>
     s32_at dat a = 0x28 \<and> 0x28 < s32_at dat (a + 4) \<and> s32_at dat (a + 4) < 0x400"

definition locate_spec :: "byte list \<Rightarrow> int option" where
  "locate_spec dat = find (signature_at dat) (filter even [0..int (length dat) - 0x28 - 1])"

subsection \<open>The layout, byte by byte\<close>

text \<open>
  \<open>abs_at dat a k\<close>: the anchor \<open>a\<close> plus the relative offset stored at \<open>a + k\<close>. The layout is
  defined when the eight absolute offsets and the seven differences of consecutive ones
  are values of a \<^verbatim>\<open>long\<close> and the four bytes at the absolute offset of the sample
  section lie in the buffer.
\<close>

definition abs_at :: "byte list \<Rightarrow> int \<Rightarrow> int \<Rightarrow> int" where
  "abs_at dat a k = a + s32_at dat (a + k)"

definition layout_defined :: "byte list \<Rightarrow> int \<Rightarrow> bool" where
  "layout_defined dat a \<longleftrightarrow>
     list_all (\<lambda>k. in_long (abs_at dat a k)) [0, 4, 8, 12, 16, 20, 24, 28]
     \<and> list_all (\<lambda>k. in_long (abs_at dat a (k + 4) - abs_at dat a k)) [0, 4, 8, 12, 16, 20, 24]
     \<and> 0 \<le> abs_at dat a 28 \<and> abs_at dat a 28 + 4 \<le> int (length dat)"

subsection \<open>Instrument records, byte by byte\<close>

text \<open>
  Record \<open>j\<close> of an instrument table at displacement \<open>base\<close> starts at \<open>base + 152 * j\<close>.
  \<open>refers dat base smp_cnt j k\<close>: the two bytes at its start are 0 (a sampled instrument),
  the next two bytes, read as a \<^verbatim>\<open>short\<close>, are the sample id \<open>k\<close>, and \<open>k\<close> lies in
  \<open>[0, smp_cnt)\<close>. \<open>stray\<close>: a sampled instrument whose sample id lies outside.
\<close>

definition refers :: "byte list \<Rightarrow> int \<Rightarrow> long \<Rightarrow> nat \<Rightarrow> int \<Rightarrow> bool" where
  "refers dat base smp_cnt j k \<longleftrightarrow>
     u16_at dat (base + 152 * int j) = 0 \<and> s16_at dat (base + 152 * int j + 2) = k
     \<and> 0 \<le> k \<and> k < sint smp_cnt"

definition stray :: "byte list \<Rightarrow> int \<Rightarrow> long \<Rightarrow> bool" where
  "stray dat a smp_cnt \<longleftrightarrow>
     u16_at dat a = 0 \<and> \<not> (0 \<le> s16_at dat (a + 2) \<and> s16_at dat (a + 2) < sint smp_cnt)"

definition complaints :: "byte list \<Rightarrow> int \<Rightarrow> long \<Rightarrow> long \<Rightarrow> nat \<Rightarrow> message list" where
  "complaints dat base smp_cnt i n =
     concat (map (\<lambda>d. if stray dat (base + 152 * int d) smp_cnt
                       then [Inconsistent_Sample_Id
                               (word_of_int (u16_at dat (base + 152 * int d + 2))) (i + of_nat d)]
                       else [])
               [0..<n])"

section \<open>Example inputs\<close>

text \<open>
  A packed module is the table of eight relative offsets, eight more bytes, and the
  sections. The instrument record of the examples is a sampled instrument for sample 0
  with length 5, repeat 2 and the name \<open>kick\<close>.
\<close>

definition offset_table :: "long list \<Rightarrow> byte list" where
  "offset_table rs = concat (map bytes_of_long rs) @ replicate 8 0"

definition demo_song :: "byte list" where
  "demo_song = [1, 2, 3, 4, 5, 6, 7, 8, 9, 10, 11, 12]"

definition demo_instr :: "byte list" where
  "demo_instr = [0, 0, 0, 0, 0, 5, 0, 2] @ replicate 114 0 @ ascii ''kick'' @ replicate 26 0"

text \<open>One song entry, one instrument, one sample of four bytes.\<close>

definition demo_module :: "byte list" where
  "demo_module = offset_table [40, 52, 52, 52, 204, 204, 204, 204] @ demo_song @ demo_instr
     @ bytes_of_long 1 @ bytes_of_long 4 @ [0xde, 0xad, 0xbe, 0xef]"

definition demo_layout :: layout where
  "demo_layout = \<lparr> song_offset = 40, over_offset = 52, note_offset = 52, instr_offset = 52,
     wave_offset = 204, adsr_offset = 204, amf_offset = 204, sample_offset = 204,
     song_len = 12, over_len = 0, note_len = 0, instr_len = 152, wave_len = 0, adsr_len = 0,
     amf_len = 0, song_cnt = 1, over_cnt = 0, note_cnt = 0, instr_cnt = 1, wave_cnt = 0,
     adsr_cnt = 0, amf_cnt = 0, sample_cnt = 1 \<rparr>"

definition demo_info :: "sample_info list" where
  "demo_info = [\<lparr> length_raw = 4, length_from_instr = 5, repeat_from_instr = 2,
     name_from_instr = Some 174 \<rparr>]"

definition file_env :: "byte list \<Rightarrow> long \<Rightarrow> env" where
  "file_env content sz = \<lparr> stat_ok = True, st_size = sz, in_file = Some content,
     heap = (\<lambda>i. 0), malloc_dat_ok = True, malloc_info_ok = True, out_ok = True \<rparr>"

definition demo_output :: "byte list" where
  "demo_output = ascii ''SOARV1.0''
     @ ascii ''STBL'' @ [0, 0, 0, 1] @ demo_song
     @ ascii ''OVTB'' @ [0, 0, 0, 0]
     @ ascii ''NTBL'' @ [0, 0, 0, 0]
     @ ascii ''INST'' @ [0, 0, 0, 1] @ demo_instr
     @ ascii ''SD8B'' @ [0, 0, 0, 1] @ [0, 0, 0, 5] @ [0, 0, 0, 2]
     @ ascii ''kick'' @ replicate 26 0 @ [0, 0, 0, 4] @ [0xde, 0xad, 0xbe, 0xef]
     @ ascii ''SYWT'' @ [0, 0, 0, 0]
     @ ascii ''SYAR'' @ [0, 0, 0, 0]
     @ ascii ''SYAF'' @ [0, 0, 0, 0]
     @ ascii ''EDATV1.1'' @ [0, 1, 0, 1, 0, 0, 0, 0x7b, 0, 0, 0, 0, 0, 1, 0, 3]"


text \<open>The module behind two bytes of something else.\<close>

definition shifted_module :: "byte list" where
  "shifted_module = [0x4e, 0x75] @ demo_module"

text \<open>
  Instrument tables: a synthetic instrument before the sampled one; two sampled
  instruments for sample 0; a sampled instrument whose sample id is 7.
\<close>

definition synth_instr :: "byte list" where
  "synth_instr = [0, 1] @ replicate 150 0"

definition snare_instr :: "byte list" where
  "snare_instr = [0, 0, 0, 0, 0, 9, 0, 3] @ replicate 114 0 @ ascii ''snare'' @ replicate 25 0"

definition stray_instr :: "byte list" where
  "stray_instr = [0, 0, 0, 7, 0, 5, 0, 2] @ replicate 114 0 @ ascii ''kick'' @ replicate 26 0"

text \<open>Two samples, and one instrument for sample 0: nothing refers_peek to sample 1.\<close>

definition two_module :: "byte list" where
  "two_module = offset_table [40, 52, 52, 52, 204, 204, 204, 204] @ demo_song @ demo_instr
     @ bytes_of_long 2 @ bytes_of_long 2 @ bytes_of_long 2 @ [1, 2, 3, 4]"

definition two_layout :: layout where
  "two_layout = demo_layout\<lparr>sample_cnt := 2\<rparr>"

definition two_info :: "sample_info list" where
  "two_info = [\<lparr> length_raw = 2, length_from_instr = 5, repeat_from_instr = 2,
                 name_from_instr = Some 174 \<rparr>,
               \<lparr> length_raw = 2, length_from_instr = 0, repeat_from_instr = 0,
                 name_from_instr = None \<rparr>]"

text \<open>The offset of the note section lies before the offset of the overview section.\<close>

definition unordered_module :: "byte list" where
  "unordered_module = offset_table [40, 52, 48, 52, 52, 52, 52, 52] @ demo_song @ bytes_of_long 0"

definition unordered_layout :: layout where
  "unordered_layout = \<lparr> song_offset = 40, over_offset = 52, note_offset = 48, instr_offset = 52,
     wave_offset = 52, adsr_offset = 52, amf_offset = 52, sample_offset = 52,
     song_len = 12, over_len = - 4, note_len = 4, instr_len = 0, wave_len = 0, adsr_len = 0,
     amf_len = 0, song_cnt = 1, over_cnt = 0, note_cnt = 1, instr_cnt = 0, wave_cnt = 0,
     adsr_cnt = 0, amf_cnt = 0, sample_cnt = 0 \<rparr>"

text \<open>
  A file without the signature, and a file in which the song data start at displacement
  42: before them stand a value \<open>0x128\<close>, a second value \<open>0x400\<close>, a second value \<open>0x28\<close>, a
  negative second value, and a signature at the odd displacement 33. Its relative offsets
  take two bytes, its instrument offset lies behind its wave offset, and its sample count
  stands at an odd displacement.
\<close>

definition blank_file :: "byte list" where
  "blank_file = replicate 64 0x55"

definition skew_file :: "byte list" where
  "skew_file =
     [0, 0, 1, 0x28, 0, 0, 0, 0x30,
      0, 0, 0, 0x28, 0, 0, 4, 0,
      0, 0, 0, 0x28, 0, 0, 0, 0x28,
      0, 0, 0, 0x28, 0xff, 0xff, 0xff, 0xf0,
      0x4e,
      0, 0, 0, 0x28, 0, 0, 1, 0x2c,
      0x71,
      0, 0, 0, 40, 0, 0, 1, 41, 0, 0, 1, 44, 0, 0, 1, 244,
      0, 0, 1, 74, 0, 0, 1, 84, 0, 0, 1, 94, 0, 0, 1, 99,
      0, 0, 0, 0, 0, 0, 0, 0]
     @ replicate 315 0x55 @ [1, 2, 3, 4]"

text \<open>
  More instrument records: sampled instruments for sample 1 with lengths and repeats of
  two bytes, and a sampled instrument whose sample id is \<open>-2\<close>. The tables below start at
  the displacements 3, 1 and 0 of their buffers.
\<close>

definition lead_instr :: "byte list" where
  "lead_instr = [0, 0, 0, 1, 0x12, 0x34, 0xab, 0xcd] @ replicate 114 0x11
     @ ascii ''lead guitar, 8 bit, 11 kHz'' @ replicate 4 0x20"

definition bass_instr :: "byte list" where
  "bass_instr = [0, 0, 0, 1, 0x01, 0x02, 0xff, 0xfe] @ replicate 114 0x22
     @ ascii ''bass'' @ replicate 26 0x20"

definition offbeat_instr :: "byte list" where
  "offbeat_instr = [0, 0, 0xff, 0xfe, 0, 5, 0, 2] @ replicate 144 0x33"

definition raw_info :: "sample_info list" where
  "raw_info = [\<lparr> length_raw = 7, length_from_instr = 0, repeat_from_instr = 0,
                 name_from_instr = None \<rparr>,
               \<lparr> length_raw = 9, length_from_instr = 0, repeat_from_instr = 0,
                 name_from_instr = None \<rparr>]"

definition single_table :: "byte list" where
  "single_table = [0x55, 0x55, 0x55] @ synth_instr @ lead_instr @ synth_instr"

definition double_table :: "byte list" where
  "double_table = [0x55] @ bass_instr @ demo_instr @ lead_instr @ synth_instr"

definition stray_table :: "byte list" where
  "stray_table = lead_instr @ offbeat_instr @ bass_instr @ stray_instr"

section \<open>Auxiliary facts\<close>

lemma sint_add_long: "add_long a b = Some c \<Longrightarrow> sint c = sint a + sint b"
  by (auto simp: add_long_def in_long_def sint_word_ariths signed_take_bit_int_eq_self split: if_splits)

lemma sint_sub_long: "sub_long a b = Some c \<Longrightarrow> sint c = sint a - sint b"
  by (auto simp: sub_long_def in_long_def sint_word_ariths signed_take_bit_int_eq_self split: if_splits)

lemma sint_mul_long: "mul_long a b = Some c \<Longrightarrow> sint c = sint a * sint b"
  by (auto simp: mul_long_def in_long_def sint_word_ariths signed_take_bit_int_eq_self split: if_splits)

lemma add_long_eq_Some: "in_long (sint a + sint b) \<Longrightarrow> add_long a b = Some (a + b)"
  by (simp add: add_long_def)

lemma in_long_sint: "in_long (sint (a :: long))"
  using sint_ge [of a] sint_lt [of a] by (simp add: in_long_def)

lemma sint_word_of_int_long: "in_long k \<Longrightarrow> sint (word_of_int k :: long) = k"
  by (simp add: in_long_def sint_sbintrunc' signed_take_bit_int_eq_self)

lemma sdiv_pos_bounds: "0 < d \<Longrightarrow> (0 \<le> k \<longrightarrow> 0 \<le> k sdiv d \<and> k sdiv d \<le> k) \<and> (k < 0 \<longrightarrow> k \<le> k sdiv d \<and> k sdiv d \<le> 0)"
  for k d :: int
proof -
  assume d: "0 < d"
  have nn: "0 \<le> \<bar>k\<bar> div d" using d by (simp add: pos_imp_zdiv_nonneg_iff)
  have le: "\<bar>k\<bar> div d \<le> \<bar>k\<bar>" using d zdiv_mono2 [of "\<bar>k\<bar>" 1 d] by simp
  show ?thesis
    using d nn le by (auto simp: signed_divide_int_def sgn_if)
qed

lemma sint_div_long: "0 < d \<Longrightarrow> sint (div_long a d) = sint a sdiv d"
proof -
  assume d: "0 < d"
  have "in_long (sint a sdiv d)"
    using sdiv_pos_bounds [OF d, of "sint a"] in_long_sint [of a] by (auto simp: in_long_def)
  then show ?thesis by (simp add: div_long_def sint_word_of_int_long)
qed

lemma peek_long_in: "0 \<le> a \<Longrightarrow> a + 4 \<le> int (length dat) \<Longrightarrow> \<exists>v. peek_long dat a = Some v"
  by (simp add: peek_long_def peek_def)

lemma evens_from: "even a \<Longrightarrow> a \<le> n \<Longrightarrow> filter even [a..n] = a # filter even [a + 2..n]" for a n :: int
proof -
  assume a: "even a" and le: "a \<le> n"
  have 1: "[a..n] = a # [a + 1..n]" using le by (simp add: upto_rec1)
  have 2: "filter even [a + 1..n] = filter even [a + 2..n]"
  proof (cases "a + 1 \<le> n")
    case True
    then have "[a + 1..n] = (a + 1) # [a + 1 + 1..n]" by (simp add: upto_rec1)
    then show ?thesis using a by (simp add: add.assoc)
  next
    case False
    then show ?thesis by simp
  qed
  show ?thesis using a 1 2 by simp
qed

lemma findsong_loop_find:
  "int (length dat) < 2 ^ 31 \<Longrightarrow> sint max_offset \<le> int (length dat) - 40 \<Longrightarrow> 0 \<le> sint offset \<Longrightarrow> even (sint offset) \<Longrightarrow>
   findsong_loop dat max_offset offset =
     Some (case find (signature_peek dat) (filter even [sint offset..sint max_offset - 1]) of
             Some a \<Rightarrow> word_of_int a | None \<Rightarrow> - 1)"
proof (induction dat max_offset offset rule: findsong_loop.induct)
  case (1 dat max_offset offset)
  show ?case
  proof (cases "offset <s max_offset")
    case False
    then have "[sint offset..sint max_offset - 1] = []"
      by (simp add: word_sless_alt)
    with False show ?thesis
      by (subst findsong_loop.simps) simp
  next
    case True
    then have lt: "sint offset < sint max_offset" by (simp add: word_sless_alt)
    obtain p1 where p1: "peek_long dat (sint offset) = Some p1"
      using peek_long_in [of "sint offset" dat] lt "1.prems" by auto
    obtain p2 where p2: "peek_long dat (sint offset + 4) = Some p2"
      using peek_long_in [of "sint offset + 4" dat] lt "1.prems" by auto
    have sig: "signature_peek dat (sint offset) \<longleftrightarrow> p1 = 0x28 \<and> p1 <s p2 \<and> p2 <s 0x400"
      using p1 p2 by (auto simp: signature_peek_def word_sless_alt)
    have evens: "filter even [sint offset..sint max_offset - 1]
        = sint offset # filter even [sint offset + 2..sint max_offset - 1]"
      using evens_from [of "sint offset" "sint max_offset - 1"] lt "1.prems" by simp
    show ?thesis
    proof (cases "signature_peek dat (sint offset)")
      case hit: True
      have hitv: "(if p1 = 0x28 then do { p2 \<leftarrow> peek_long dat (sint offset + 4); Some (p1 <s p2 \<and> p2 <s 0x400) }
            else Some False) = Some True"
        using hit sig p2 by auto
      show ?thesis
        using True p1 hitv hit evens by (subst findsong_loop.simps) simp
    next
      case miss: False
      have "in_long (sint offset + sint (2 :: long))"
        using lt "1.prems" sint_ge [of offset] by (simp add: in_long_def)
      then have nxt: "add_long offset 2 = Some (offset + 2)"
        by (rule add_long_eq_Some)
      have s2: "sint (offset + 2) = sint offset + 2"
        using sint_add_long [OF nxt] by simp
      have hitv: "(if p1 = 0x28 then do { p2 \<leftarrow> peek_long dat (sint offset + 4); Some (p1 <s p2 \<and> p2 <s 0x400) }
            else Some False) = Some False"
        using miss sig p2 by auto
      have IH: "findsong_loop dat max_offset (offset + 2) =
          Some (case find (signature_peek dat) (filter even [sint (offset + 2)..sint max_offset - 1]) of
             Some a \<Rightarrow> word_of_int a | None \<Rightarrow> - 1)"
        using "1.IH" [OF True p1 hitv _ nxt] "1.prems" s2 by simp
      show ?thesis
        using True p1 hitv nxt IH miss evens s2 by (subst findsong_loop.simps) simp
    qed
  qed
qed

lemma abs_offset_Some:
  "abs_offset dat offset k = Some x \<Longrightarrow>
     map_option (\<lambda>r. sint offset + sint r) (peek_long dat (sint offset + k)) = Some (sint x)"
  by (auto simp: abs_offset_def bind_eq_Some_conv dest: sint_add_long)

lemma resolve_SomeD:
  assumes "resolve dat offset = Some L"
  shows "abs_offset dat offset 0 = Some (song_offset L)"
    and "abs_offset dat offset 4 = Some (over_offset L)"
    and "abs_offset dat offset 8 = Some (note_offset L)"
    and "abs_offset dat offset 12 = Some (instr_offset L)"
    and "abs_offset dat offset 16 = Some (wave_offset L)"
    and "abs_offset dat offset 20 = Some (adsr_offset L)"
    and "abs_offset dat offset 24 = Some (amf_offset L)"
    and "abs_offset dat offset 28 = Some (sample_offset L)"
    and "sub_long (over_offset L) (song_offset L) = Some (song_len L)"
    and "sub_long (note_offset L) (over_offset L) = Some (over_len L)"
    and "sub_long (instr_offset L) (note_offset L) = Some (note_len L)"
    and "sub_long (wave_offset L) (instr_offset L) = Some (instr_len L)"
    and "sub_long (adsr_offset L) (wave_offset L) = Some (wave_len L)"
    and "sub_long (amf_offset L) (adsr_offset L) = Some (adsr_len L)"
    and "sub_long (sample_offset L) (amf_offset L) = Some (amf_len L)"
    and "peek_long dat (sint (sample_offset L)) = Some (sample_cnt L)"
    and "song_cnt L = div_long (song_len L) 12"
    and "over_cnt L = div_long (over_len L) 16"
    and "note_cnt L = div_long (note_len L) 4"
    and "instr_cnt L = div_long (instr_len L) 152"
    and "wave_cnt L = div_long (wave_len L) 128"
    and "adsr_cnt L = div_long (adsr_len L) 128"
    and "amf_cnt L = div_long (amf_len L) 128"
  using assms by (auto simp: resolve_def bind_eq_Some_conv)

lemma with_instr_absorb: "with_instr l r a (with_instr l' r' a' s) = with_instr l r a s"
  by (simp add: with_instr_def)

lemma set_entry_Some:
  "set_entry si i f = Some si' \<longleftrightarrow> 0 \<le> i \<and> i < int (length si) \<and> si' = si[nat i := f (si ! nat i)]"
  by (auto simp: set_entry_def)

lemma join_record_length:
  "join_record dat sc i ioff st = Some st' \<Longrightarrow> length (fst st') = length (fst st)"
  by (cases st) (auto simp: join_record_def bind_eq_Some_conv set_entry_Some split: if_splits)

lemma join_record_other:
  "join_record dat sc i ioff st = Some st' \<Longrightarrow> \<not> refers_peek dat (sint ioff) sc 0 (int k) \<Longrightarrow>
   fst st' ! k = fst st ! k"
  by (cases st) (auto simp: join_record_def bind_eq_Some_conv set_entry_Some refers_peek_def nat_eq_iff
      split: if_splits)

lemma join_record_hit:
  "join_record dat sc i ioff st = Some st' \<Longrightarrow> refers_peek dat (sint ioff) sc 0 (int k) \<Longrightarrow>
   k < length (fst st) \<and>
   (\<exists>l r. peek_ushort dat (sint ioff + 4) = Some l \<and> peek_ushort dat (sint ioff + 6) = Some r \<and>
      fst st' ! k = with_instr l r (sint ioff + 0x7a) (fst st ! k))"
  by (cases st) (auto simp: join_record_def bind_eq_Some_conv set_entry_Some refers_peek_def with_instr_def
      split: if_splits)

lemma refers_shift: "refers_peek dat (b + 152) sc d k = refers_peek dat b sc (Suc d) k"
  by (simp add: refers_peek_def algebra_simps)

lemma join_instruments_unfold:
  "i <s ic \<Longrightarrow> join_instruments dat sc ic i ioff st = Some st' \<Longrightarrow>
   \<exists>st1 ioff' i'. join_record dat sc i ioff st = Some st1 \<and> add_long ioff 0x98 = Some ioff' \<and>
      add_long i 1 = Some i' \<and> join_instruments dat sc ic i' ioff' st1 = Some st'"
  by (subst (asm) join_instruments.simps) (auto simp: bind_eq_Some_conv)

lemma join_instruments_done:
  "\<not> i <s ic \<Longrightarrow> join_instruments dat sc ic i ioff st = Some st"
  by (subst join_instruments.simps) simp

lemma join_instruments_length:
  "join_instruments dat sc ic i ioff st = Some st' \<Longrightarrow> length (fst st') = length (fst st)"
proof (induction dat sc ic i ioff st arbitrary: st' rule: join_instruments.induct)
  case (1 dat sc ic i ioff st)
  show ?case
  proof (cases "i <s ic")
    case True
    from join_instruments_unfold [OF True "1.prems"] obtain st1 ioff' i'
      where s: "join_record dat sc i ioff st = Some st1" "add_long ioff 0x98 = Some ioff'"
        "add_long i 1 = Some i'" "join_instruments dat sc ic i' ioff' st1 = Some st'"
      by blast
    have "length (fst st') = length (fst st1)"
      using "1.IH" [OF True s(1) s(2) s(3) s(4)] .
    then show ?thesis using join_record_length [OF s(1)] by simp
  next
    case False
    then show ?thesis using "1.prems" by (simp add: join_instruments_done)
  qed
qed

lemma join_instruments_untouched:
  "join_instruments dat sc ic i ioff st = Some st' \<Longrightarrow>
   (\<forall>d. int d < sint ic - sint i \<longrightarrow> \<not> refers_peek dat (sint ioff) sc d (int k)) \<Longrightarrow>
   fst st' ! k = fst st ! k"
proof (induction dat sc ic i ioff st arbitrary: st' rule: join_instruments.induct)
  case (1 dat sc ic i ioff st)
  show ?case
  proof (cases "i <s ic")
    case True
    from join_instruments_unfold [OF True "1.prems"(1)] obtain st1 ioff' i'
      where s: "join_record dat sc i ioff st = Some st1" "add_long ioff 0x98 = Some ioff'"
        "add_long i 1 = Some i'" "join_instruments dat sc ic i' ioff' st1 = Some st'"
      by blast
    have lt: "sint i < sint ic" using True by (simp add: word_sless_alt)
    have i': "sint i' = sint i + 1" using sint_add_long [OF s(3)] by simp
    have o': "sint ioff' = sint ioff + 152" using sint_add_long [OF s(2)] by simp
    have none: "\<forall>d. int d < sint ic - sint i' \<longrightarrow> \<not> refers_peek dat (sint ioff') sc d (int k)"
    proof (intro allI impI)
      fix d assume "int d < sint ic - sint i'"
      then have "int (Suc d) < sint ic - sint i" using i' by simp
      then show "\<not> refers_peek dat (sint ioff') sc d (int k)"
        using "1.prems"(2) by (simp only: o' refers_shift) blast
    qed
    have "fst st' ! k = fst st1 ! k"
      using "1.IH" [OF True s(1) s(2) s(3) s(4) none] .
    moreover have "\<not> refers_peek dat (sint ioff) sc 0 (int k)"
      using "1.prems"(2) lt by (metis diff_gt_0_iff_gt int_ops(1))
    ultimately show ?thesis using join_record_other [OF s(1)] by simp
  next
    case False
    then show ?thesis using "1.prems" by (simp add: join_instruments_done)
  qed
qed

lemma join_instruments_last:
  "join_instruments dat sc ic i ioff st = Some st' \<Longrightarrow>
   int d < sint ic - sint i \<Longrightarrow> refers_peek dat (sint ioff) sc d (int k) \<Longrightarrow>
   (\<forall>d'. d < d' \<and> int d' < sint ic - sint i \<longrightarrow> \<not> refers_peek dat (sint ioff) sc d' (int k)) \<Longrightarrow>
   k < length (fst st) \<and>
   (\<exists>l r. peek_ushort dat (sint ioff + 152 * int d + 4) = Some l \<and>
      peek_ushort dat (sint ioff + 152 * int d + 6) = Some r \<and>
      fst st' ! k = with_instr l r (sint ioff + 152 * int d + 0x7a) (fst st ! k))"
proof (induction dat sc ic i ioff st arbitrary: st' d rule: join_instruments.induct)
  case (1 dat sc ic i ioff st)
  have True: "i <s ic" using "1.prems"(2) by (simp add: word_sless_alt)
  from join_instruments_unfold [OF True "1.prems"(1)] obtain st1 ioff' i'
    where s: "join_record dat sc i ioff st = Some st1" "add_long ioff 0x98 = Some ioff'"
      "add_long i 1 = Some i'" "join_instruments dat sc ic i' ioff' st1 = Some st'"
    by blast
  have i': "sint i' = sint i + 1" using sint_add_long [OF s(3)] by simp
  have o': "sint ioff' = sint ioff + 152" using sint_add_long [OF s(2)] by simp
  have len1: "length (fst st1) = length (fst st)" using join_record_length [OF s(1)] .
  show ?case
  proof (cases d)
    case 0
    have none: "\<forall>d. int d < sint ic - sint i' \<longrightarrow> \<not> refers_peek dat (sint ioff') sc d (int k)"
    proof (intro allI impI)
      fix e assume "int e < sint ic - sint i'"
      then have "d < Suc e \<and> int (Suc e) < sint ic - sint i" using i' 0 by simp
      then show "\<not> refers_peek dat (sint ioff') sc e (int k)"
        using "1.prems"(4) by (simp only: o' refers_shift) blast
    qed
    have "fst st' ! k = fst st1 ! k"
      using join_instruments_untouched [OF s(4) none] .
    then show ?thesis
      using join_record_hit [OF s(1), of k] "1.prems"(3) 0 by simp
  next
    case (Suc e)
    have 1: "int e < sint ic - sint i'" using "1.prems"(2) Suc i' by simp
    have 2: "refers_peek dat (sint ioff') sc e (int k)"
      using "1.prems"(3) Suc by (simp only: o' refers_shift)
    have 3: "\<forall>d'. e < d' \<and> int d' < sint ic - sint i' \<longrightarrow> \<not> refers_peek dat (sint ioff') sc d' (int k)"
    proof (intro allI impI)
      fix d' assume "e < d' \<and> int d' < sint ic - sint i'"
      then have "d < Suc d' \<and> int (Suc d') < sint ic - sint i" using i' Suc by simp
      then show "\<not> refers_peek dat (sint ioff') sc d' (int k)"
        using "1.prems"(4) by (simp only: o' refers_shift) blast
    qed
    from "1.IH" [OF True s(1) s(2) s(3) s(4) 1 2 3] obtain l r
      where k: "k < length (fst st1)"
        and l: "peek_ushort dat (sint ioff' + 152 * int e + 4) = Some l"
        and r: "peek_ushort dat (sint ioff' + 152 * int e + 6) = Some r"
        and v: "fst st' ! k = with_instr l r (sint ioff' + 152 * int e + 0x7a) (fst st1 ! k)"
      by blast
    have disp: "sint ioff' + 152 * int e = sint ioff + 152 * int d"
      using o' Suc by simp
    have "fst st1 ! k = fst st ! k \<or> (\<exists>l' r' a'. fst st1 ! k = with_instr l' r' a' (fst st ! k))"
      using join_record_other [OF s(1), of k] join_record_hit [OF s(1), of k] by blast
    then have "with_instr l r (sint ioff + 152 * int d + 0x7a) (fst st1 ! k)
        = with_instr l r (sint ioff + 152 * int d + 0x7a) (fst st ! k)"
      by (auto simp: with_instr_absorb)
    then show ?thesis
      using k l r v len1 disp by auto
  qed
qed

lemma peek_Some: "peek dat a n = Some bs \<Longrightarrow> bs = slice dat a n \<and> length bs = n"
  by (auto simp: peek_def slice_def split: if_splits)

lemma fwrite_dat_Some:
  "fwrite_dat dat a n out = Some out' \<Longrightarrow>
     out' = out @ slice dat a (unat n) \<and> length (slice dat a (unat n)) = unat n"
  by (auto simp: fwrite_dat_def bind_eq_Some_conv dest: peek_Some)

lemma length_bytes_of_long: "length (bytes_of_long w) = 4"
  by (simp add: bytes_of_long_def)

lemma write_section_Some:
  "write_section tag cnt dat off len out = Some out' \<Longrightarrow>
     out' = out @ take 4 tag @ bytes_of_long cnt @ slice dat (sint off) (unat len)
     \<and> length (slice dat (sint off) (unat len)) = unat len"
  by (auto simp: write_section_def fwrite_bytes_def bind_eq_Some_conv bytes_of_long_def
      dest!: fwrite_dat_Some split: if_splits)

lemma write_each_unfold:
  "i <s cnt \<Longrightarrow> write_each field si cnt i out = Some out' \<Longrightarrow>
   \<exists>s bs i'. entry si (sint i) = Some s \<and> field s = Some bs \<and> add_long i 1 = Some i' \<and>
      write_each field si cnt i' (out @ bs) = Some out'"
  by (subst (asm) write_each.simps) (auto simp: bind_eq_Some_conv)

lemma write_each_done: "\<not> i <s cnt \<Longrightarrow> write_each field si cnt i out = Some out"
  by (subst write_each.simps) simp

lemma entry_Some: "entry si i = Some s \<longleftrightarrow> 0 \<le> i \<and> i < int (length si) \<and> s = si ! nat i"
  by (auto simp: entry_def)

lemma write_each_Some:
  "write_each field si cnt i out = Some out' \<Longrightarrow> 0 \<le> sint i \<Longrightarrow>
   out' = out @ concat (map (\<lambda>k. the (field (si ! k))) [nat (sint i)..<nat (sint cnt)])
   \<and> (\<forall>k. nat (sint i) \<le> k \<and> int k < sint cnt \<longrightarrow> k < length si \<and> field (si ! k) \<noteq> None)"
proof (induction field si cnt i out arbitrary: out' rule: write_each.induct)
  case (1 field si cnt i out)
  show ?case
  proof (cases "i <s cnt")
    case True
    from write_each_unfold [OF True "1.prems"(1)] obtain s bs i'
      where s: "entry si (sint i) = Some s" "field s = Some bs" "add_long i 1 = Some i'"
        "write_each field si cnt i' (out @ bs) = Some out'"
      by blast
    have lt: "sint i < sint cnt" using True by (simp add: word_sless_alt)
    have i': "sint i' = sint i + 1" using sint_add_long [OF s(3)] by simp
    have nat': "nat (sint i') = Suc (nat (sint i))" using i' "1.prems"(2) by simp
    have e: "nat (sint i) < length si" "s = si ! nat (sint i)"
      using s(1) by (auto simp: entry_Some)
    have IH: "out' = (out @ bs) @ concat (map (\<lambda>k. the (field (si ! k))) [nat (sint i')..<nat (sint cnt)])
        \<and> (\<forall>k. nat (sint i') \<le> k \<and> int k < sint cnt \<longrightarrow> k < length si \<and> field (si ! k) \<noteq> None)"
      using "1.IH" [OF True s(1) s(2) s(3) s(4)] i' "1.prems"(2) by simp
    have upt: "[nat (sint i)..<nat (sint cnt)] = nat (sint i) # [nat (sint i')..<nat (sint cnt)]"
      using lt "1.prems"(2) nat' by (simp add: upt_conv_Cons)
    have all: "\<forall>k. nat (sint i) \<le> k \<and> int k < sint cnt \<longrightarrow> k < length si \<and> field (si ! k) \<noteq> None"
    proof (intro allI impI)
      fix k assume k: "nat (sint i) \<le> k \<and> int k < sint cnt"
      show "k < length si \<and> field (si ! k) \<noteq> None"
      proof (cases "k = nat (sint i)")
        case True
        then show ?thesis using e s(2) by simp
      next
        case False
        then have "nat (sint i') \<le> k" using k nat' by simp
        then show ?thesis using IH k by blast
      qed
    qed
    show ?thesis
      using IH upt e s(2) all by simp
  next
    case False
    then have "nat (sint cnt) \<le> nat (sint i)" by (simp add: word_sless_alt)
    moreover have "\<forall>k. \<not> (nat (sint i) \<le> k \<and> int k < sint cnt)"
      using False "1.prems"(2) by (auto simp: word_sless_alt)
    ultimately show ?thesis using False "1.prems" by (auto simp: write_each_done)
  qed
qed

lemma map_nth_take: "n \<le> length xs \<Longrightarrow> map (\<lambda>k. f (xs ! k)) [0..<n] = map f (take n xs)"
  by (rule nth_equalityI) auto

lemma write_each_all:
  assumes "write_each field si cnt 0 out = Some out'"
  shows "nat (sint cnt) \<le> length si"
    and "out' = out @ concat (map (\<lambda>s. the (field s)) (take (nat (sint cnt)) si))"
    and "\<forall>s \<in> set (take (nat (sint cnt)) si). field s \<noteq> None"
proof -
  from write_each_Some [OF assms] have
    o: "out' = out @ concat (map (\<lambda>k. the (field (si ! k))) [0..<nat (sint cnt)])"
    and a: "\<forall>k. int k < sint cnt \<longrightarrow> k < length si \<and> field (si ! k) \<noteq> None"
    by simp_all
  show n: "nat (sint cnt) \<le> length si"
  proof (cases "0 < sint cnt")
    case True
    then have "int (nat (sint cnt) - 1) < sint cnt" by simp
    then have "nat (sint cnt) - 1 < length si" using a by blast
    then show ?thesis by simp
  next
    case False
    then show ?thesis by simp
  qed
  show "out' = out @ concat (map (\<lambda>s. the (field s)) (take (nat (sint cnt)) si))"
    using o map_nth_take [OF n, of "\<lambda>s. the (field s)"] by simp
  show "\<forall>s \<in> set (take (nat (sint cnt)) si). field s \<noteq> None"
  proof
    fix s assume "s \<in> set (take (nat (sint cnt)) si)"
    then obtain k where "k < nat (sint cnt)" "k < length si" "s = si ! k"
      using n by (auto simp: in_set_conv_nth)
    then show "field s \<noteq> None" using a by auto
  qed
qed

lemma name_bytes_Some:
  "name_bytes dat s \<noteq> None \<Longrightarrow>
     name_from_instr s \<noteq> None \<and> the (name_bytes dat s) = slice dat (the (name_from_instr s)) 30
     \<and> length (slice dat (the (name_from_instr s)) 30) = 30"
  by (auto simp: name_bytes_def dest: peek_Some split: option.splits)

lemma fwrite_bytes_Some:
  "fwrite_bytes src n out = Some out' \<longleftrightarrow> n \<le> length src \<and> out' = out @ take n src"
  by (auto simp: fwrite_bytes_def)

lemma write_samples_Some:
  assumes "write_samples dat L si sample_len out = Some out'"
  shows "out' = out @ sample_image dat L si sample_len"
    and "nat (sint (sample_cnt L)) \<le> length si"
    and "\<forall>s \<in> set (take (nat (sint (sample_cnt L))) si). name_bytes dat s \<noteq> None"
    and "length (slice dat (sint (sample_offset L) + 4 + 4 * sint (sample_cnt L)) (unat sample_len))
          = unat sample_len"
proof -
  let ?n = "nat (sint (sample_cnt L))"
  from assms obtain a1 a2 o1 o2 o3 o4 cnt4 where
    f1: "fwrite_bytes SD8B_ID 4 out = Some a1"
    and f2: "fwrite_bytes (bytes_of_long (sample_cnt L)) 4 a1 = Some a2"
    and w1: "write_each (\<lambda>s. Some (bytes_of_long (length_from_instr s))) si (sample_cnt L) 0 a2 = Some o1"
    and w2: "write_each (\<lambda>s. Some (bytes_of_long (repeat_from_instr s))) si (sample_cnt L) 0 o1 = Some o2"
    and w3: "write_each (name_bytes dat) si (sample_cnt L) 0 o2 = Some o3"
    and w4: "write_each (\<lambda>s. Some (bytes_of_long (length_raw s))) si (sample_cnt L) 0 o3 = Some o4"
    and m: "mul_long (sample_cnt L) 4 = Some cnt4"
    and p: "fwrite_dat dat (sint (sample_offset L) + 4 + sint cnt4) sample_len o4 = Some out'"
    unfolding write_samples_def bind_eq_Some_conv by blast
  have a1: "a1 = out @ take 4 SD8B_ID" using f1 by (simp add: fwrite_bytes_Some)
  have a2: "a2 = a1 @ bytes_of_long (sample_cnt L)"
    using f2 by (simp add: fwrite_bytes_Some length_bytes_of_long)
  have c4: "sint cnt4 = 4 * sint (sample_cnt L)" using sint_mul_long [OF m] by simp
  show n: "?n \<le> length si" using write_each_all(1) [OF w1] .
  show names: "\<forall>s \<in> set (take ?n si). name_bytes dat s \<noteq> None"
    using write_each_all(3) [OF w3] .
  have nm: "map (\<lambda>s. the (name_bytes dat s)) (take ?n si)
      = map (\<lambda>s. slice dat (the (name_from_instr s)) 30) (take ?n si)"
    using names by (intro map_cong refl) (simp add: name_bytes_Some)
  show "length (slice dat (sint (sample_offset L) + 4 + 4 * sint (sample_cnt L)) (unat sample_len))
          = unat sample_len"
    using fwrite_dat_Some [OF p] c4 by simp
  have tag: "take 4 SD8B_ID = ascii ''SD8B''" by (simp add: SD8B_ID_def ascii_def)
  show "out' = out @ sample_image dat L si sample_len"
    using write_each_all(2) [OF w1] write_each_all(2) [OF w2] write_each_all(2) [OF w3]
      write_each_all(2) [OF w4] fwrite_dat_Some [OF p] c4 nm tag a1 a2
    by (simp add: sample_image_def Let_def)
qed

lemma write_module_Some:
  assumes "write_module dat L si sample_len = Some out"
  shows "out = soar_image dat L si sample_len"
    and "nat (sint (sample_cnt L)) \<le> length si"
    and "\<forall>s \<in> set (take (nat (sint (sample_cnt L))) si). name_bytes dat s \<noteq> None"
    and "length (slice dat (sint (sample_offset L) + 4 + 4 * sint (sample_cnt L)) (unat sample_len))
          = unat sample_len"
    and "length (slice dat (sint (song_offset L)) (unat (song_len L))) = unat (song_len L)"
    and "length (slice dat (sint (over_offset L)) (unat (over_len L))) = unat (over_len L)"
    and "length (slice dat (sint (note_offset L)) (unat (note_len L))) = unat (note_len L)"
    and "length (slice dat (sint (instr_offset L)) (unat (instr_len L))) = unat (instr_len L)"
    and "length (slice dat (sint (wave_offset L)) (unat (wave_len L))) = unat (wave_len L)"
    and "length (slice dat (sint (adsr_offset L)) (unat (adsr_len L))) = unat (adsr_len L)"
    and "length (slice dat (sint (amf_offset L)) (unat (amf_len L))) = unat (amf_len L)"
proof -
  from assms obtain o0 o1 o2 o3 o4 o5 o6 o7 o8 o9 where
    s0: "fwrite_bytes SOAR_ID 8 [] = Some o0"
    and s1: "write_section STBL_ID (song_cnt L) dat (song_offset L) (song_len L) o0 = Some o1"
    and s2: "write_section OVTB_ID (over_cnt L) dat (over_offset L) (over_len L) o1 = Some o2"
    and s3: "write_section NTBL_ID (note_cnt L) dat (note_offset L) (note_len L) o2 = Some o3"
    and s4: "write_section INST_ID (instr_cnt L) dat (instr_offset L) (instr_len L) o3 = Some o4"
    and s5: "write_samples dat L si sample_len o4 = Some o5"
    and s6: "write_section SYWT_ID (wave_cnt L) dat (wave_offset L) (wave_len L) o5 = Some o6"
    and s7: "write_section SYAR_ID (adsr_cnt L) dat (adsr_offset L) (adsr_len L) o6 = Some o7"
    and s8: "write_section SYAF_ID (amf_cnt L) dat (amf_offset L) (amf_len L) o7 = Some o8"
    and s9: "fwrite_bytes EDAT_ID 8 o8 = Some o9"
    and s10: "fwrite_bytes EDAT_DATA 0x10 o9 = Some out"
    unfolding write_module_def bind_eq_Some_conv by blast
  have o0: "o0 = take 8 SOAR_ID" using s0 by (simp add: fwrite_bytes_Some)
  have o9: "o9 = o8 @ take 8 EDAT_ID" using s9 by (simp add: fwrite_bytes_Some)
  have fin: "out = o9 @ take 16 EDAT_DATA" using s10 by (simp add: fwrite_bytes_Some)
  note W = write_section_Some [OF s1] write_section_Some [OF s2] write_section_Some [OF s3]
    write_section_Some [OF s4] write_section_Some [OF s6] write_section_Some [OF s7]
    write_section_Some [OF s8]
  show "nat (sint (sample_cnt L)) \<le> length si"
    and "\<forall>s \<in> set (take (nat (sint (sample_cnt L))) si). name_bytes dat s \<noteq> None"
    and "length (slice dat (sint (sample_offset L) + 4 + 4 * sint (sample_cnt L)) (unat sample_len))
          = unat sample_len"
    using write_samples_Some(2-4) [OF s5] by blast+
  show "length (slice dat (sint (song_offset L)) (unat (song_len L))) = unat (song_len L)"
    and "length (slice dat (sint (over_offset L)) (unat (over_len L))) = unat (over_len L)"
    and "length (slice dat (sint (note_offset L)) (unat (note_len L))) = unat (note_len L)"
    and "length (slice dat (sint (instr_offset L)) (unat (instr_len L))) = unat (instr_len L)"
    and "length (slice dat (sint (wave_offset L)) (unat (wave_len L))) = unat (wave_len L)"
    and "length (slice dat (sint (adsr_offset L)) (unat (adsr_len L))) = unat (adsr_len L)"
    and "length (slice dat (sint (amf_offset L)) (unat (amf_len L))) = unat (amf_len L)"
    using W by blast+
  have tags: "take 8 SOAR_ID = ascii ''SOARV1.0''" "take 4 STBL_ID = ascii ''STBL''"
    "take 4 OVTB_ID = ascii ''OVTB''" "take 4 NTBL_ID = ascii ''NTBL''"
    "take 4 INST_ID = ascii ''INST''" "take 4 SYWT_ID = ascii ''SYWT''"
    "take 4 SYAR_ID = ascii ''SYAR''" "take 4 SYAF_ID = ascii ''SYAF''"
    "take 8 EDAT_ID = ascii ''EDATV1.1''"
    "take 16 EDAT_DATA = [0, 1, 0, 1, 0, 0, 0, 0x7b, 0, 0, 0, 0, 0, 1, 0, 3]"
    by (simp_all add: SOAR_ID_def STBL_ID_def OVTB_ID_def NTBL_ID_def INST_ID_def SYWT_ID_def
        SYAR_ID_def SYAF_ID_def EDAT_ID_def EDAT_DATA_def ascii_def)
  show "out = soar_image dat L si sample_len"
    using W write_samples_Some(1) [OF s5] fin o0 o9
    by (simp add: soar_image_def table_image_def tags)
qed

lemma read_lengths_unfold:
  "i <s cnt \<Longrightarrow> read_lengths dat so cnt i (sl, si) = Some r \<Longrightarrow>
   \<exists>i4 s_len sl1 si1 i'. mul_long i 4 = Some i4 \<and>
      peek_long dat (sint so + 4 + sint i4) = Some s_len \<and> add_long sl s_len = Some sl1 \<and>
      set_entry si (sint i) (\<lambda>s. s\<lparr>length_raw := s_len\<rparr>) = Some si1 \<and>
      add_long i 1 = Some i' \<and> read_lengths dat so cnt i' (sl1, si1) = Some r"
  by (subst (asm) read_lengths.simps) (simp add: bind_eq_Some_conv)

lemma read_lengths_done: "\<not> i <s cnt \<Longrightarrow> read_lengths dat so cnt i st = Some st"
  by (cases st) (simp add: read_lengths.simps)

lemma read_lengths_Some:
  "read_lengths dat so cnt i (sl, si) = Some (sl', si') \<Longrightarrow> 0 \<le> sint i \<Longrightarrow>
   length si' = length si
   \<and> sint sl' = sint sl + sum_list (map (\<lambda>k. sint (length_raw (si' ! k))) [nat (sint i)..<nat (sint cnt)])
   \<and> (\<forall>k. k < nat (sint i) \<longrightarrow> si' ! k = si ! k)
   \<and> (\<forall>k. nat (sint i) \<le> k \<and> int k < sint cnt \<longrightarrow> k < length si
        \<and> (\<exists>v. peek_long dat (sint so + 4 + 4 * int k) = Some v
               \<and> si' ! k = (si ! k)\<lparr>length_raw := v\<rparr>))"
proof (induction dat so cnt i "(sl, si)" arbitrary: sl si rule: read_lengths.induct)
  case (1 dat so cnt i sl si)
  show ?case
  proof (cases "i <s cnt")
    case True
    from read_lengths_unfold [OF True "1.prems"(1)] obtain i4 s_len sl1 si1 i'
      where s: "mul_long i 4 = Some i4" "peek_long dat (sint so + 4 + sint i4) = Some s_len"
        "add_long sl s_len = Some sl1"
        "set_entry si (sint i) (\<lambda>s. s\<lparr>length_raw := s_len\<rparr>) = Some si1"
        "add_long i 1 = Some i'" "read_lengths dat so cnt i' (sl1, si1) = Some (sl', si')"
      by blast
    have lt: "sint i < sint cnt" using True by (simp add: word_sless_alt)
    have i4: "sint i4 = 4 * sint i" using sint_mul_long [OF s(1)] by simp
    have i': "sint i' = sint i + 1" using sint_add_long [OF s(5)] by simp
    have nat': "nat (sint i') = Suc (nat (sint i))" using i' "1.prems"(2) by simp
    have sl1: "sint sl1 = sint sl + sint s_len" using sint_add_long [OF s(3)] .
    have e: "nat (sint i) < length si" "si1 = si[nat (sint i) := (si ! nat (sint i))\<lparr>length_raw := s_len\<rparr>]"
      using s(4) by (auto simp: set_entry_Some)
    have IH: "length si' = length si1
        \<and> sint sl' = sint sl1 + sum_list (map (\<lambda>k. sint (length_raw (si' ! k))) [nat (sint i')..<nat (sint cnt)])
        \<and> (\<forall>k. k < nat (sint i') \<longrightarrow> si' ! k = si1 ! k)
        \<and> (\<forall>k. nat (sint i') \<le> k \<and> int k < sint cnt \<longrightarrow> k < length si1
             \<and> (\<exists>v. peek_long dat (sint so + 4 + 4 * int k) = Some v
                    \<and> si' ! k = (si1 ! k)\<lparr>length_raw := v\<rparr>))"
      using "1.hyps" [OF True s(1) s(2) s(3) s(4) s(5) s(6)] i' "1.prems"(2) by simp
    have here: "si' ! nat (sint i) = (si ! nat (sint i))\<lparr>length_raw := s_len\<rparr>"
      using IH nat' e by simp
    have upt: "[nat (sint i)..<nat (sint cnt)] = nat (sint i) # [nat (sint i')..<nat (sint cnt)]"
      using lt "1.prems"(2) nat' by (simp add: upt_conv_Cons)
    have len: "length si' = length si" using IH e by simp
    have sum: "sint sl' = sint sl + sum_list (map (\<lambda>k. sint (length_raw (si' ! k))) [nat (sint i)..<nat (sint cnt)])"
      using IH sl1 upt here by simp
    have before: "\<forall>k. k < nat (sint i) \<longrightarrow> si' ! k = si ! k"
      using IH nat' e by simp
    have rest: "\<forall>k. nat (sint i) \<le> k \<and> int k < sint cnt \<longrightarrow> k < length si
        \<and> (\<exists>v. peek_long dat (sint so + 4 + 4 * int k) = Some v
               \<and> si' ! k = (si ! k)\<lparr>length_raw := v\<rparr>)"
    proof (intro allI impI)
      fix k assume k: "nat (sint i) \<le> k \<and> int k < sint cnt"
      show "k < length si \<and> (\<exists>v. peek_long dat (sint so + 4 + 4 * int k) = Some v
               \<and> si' ! k = (si ! k)\<lparr>length_raw := v\<rparr>)"
      proof (cases "k = nat (sint i)")
        case True
        then show ?thesis using e(1) here s(2) i4 "1.prems"(2) by simp
      next
        case False
        then have "nat (sint i') \<le> k \<and> int k < sint cnt" using k nat' by simp
        then have "k < length si1
             \<and> (\<exists>v. peek_long dat (sint so + 4 + 4 * int k) = Some v
                    \<and> si' ! k = (si1 ! k)\<lparr>length_raw := v\<rparr>)"
          using IH by blast
        then show ?thesis using e False by simp
      qed
    qed
    show ?thesis using len sum before rest by blast
  next
    case False
    then have "nat (sint cnt) \<le> nat (sint i)" by (simp add: word_sless_alt)
    moreover have "\<forall>k. \<not> (nat (sint i) \<le> k \<and> int k < sint cnt)"
      using False "1.prems"(2) by (auto simp: word_sless_alt)
    ultimately show ?thesis using False "1.prems" by (auto simp: read_lengths_done)
  qed
qed

lemma sint_uint_small: "uint (w :: long) < 2147483648 \<Longrightarrow> sint w = uint w"
proof -
  assume a: "uint w < 2147483648"
  have p: "(2 :: int) ^ 31 = 2147483648" by simp
  have b: "- (2 ^ 31) \<le> uint w"
    using uint_ge_0 [of w] unfolding p by linarith
  have c: "uint w < 2 ^ 31"
    using a unfolding p .
  have "signed_take_bit 31 (uint w) = uint w"
    using b c by (rule signed_take_bit_int_eq_self)
  then show ?thesis by (simp add: sint_uint)
qed








lemma join_record_raw:
  "join_record dat sc i ioff st = Some st' \<Longrightarrow> length_raw (fst st' ! k) = length_raw (fst st ! k)"
proof (cases "refers_peek dat (sint ioff) sc 0 (int k)")
  case True
  assume "join_record dat sc i ioff st = Some st'"
  from join_record_hit [OF this True] show ?thesis by (auto simp: with_instr_def)
next
  case False
  assume "join_record dat sc i ioff st = Some st'"
  from join_record_other [OF this False] show ?thesis by simp
qed

lemma join_instruments_raw:
  "join_instruments dat sc ic i ioff st = Some st' \<Longrightarrow>
     length_raw (fst st' ! k) = length_raw (fst st ! k)"
proof (induction dat sc ic i ioff st arbitrary: st' rule: join_instruments.induct)
  case (1 dat sc ic i ioff st)
  show ?case
  proof (cases "i <s ic")
    case True
    from join_instruments_unfold [OF True "1.prems"] obtain st1 ioff' i'
      where s: "join_record dat sc i ioff st = Some st1" "add_long ioff 0x98 = Some ioff'"
        "add_long i 1 = Some i'" "join_instruments dat sc ic i' ioff' st1 = Some st'"
      by blast
    have "length_raw (fst st' ! k) = length_raw (fst st1 ! k)"
      using "1.IH" [OF True s(1) s(2) s(3) s(4)] .
    then show ?thesis using join_record_raw [OF s(1), of k] by simp
  next
    case False
    then show ?thesis using "1.prems" by (simp add: join_instruments_done)
  qed
qed

lemma gather_SomeD:
  assumes "gather dat L con = Some (sample_len, si, con')"
  shows "\<exists>si1.
     read_lengths dat (sample_offset L) (sample_cnt L) 0
       (0, replicate (unat (sample_cnt L * 16) div 16) zero_info) = Some (sample_len, si1)
     \<and> join_instruments dat (sample_cnt L) (instr_cnt L) 0 (instr_offset L) (si1, con) = Some (si, con')"
  using assms by (auto simp: gather_def Let_def bind_eq_Some_conv)

lemma gather_Some:
  assumes "gather dat L con = Some (sample_len, si, con')"
  shows "nat (sint (sample_cnt L)) \<le> length si"
    and "sint sample_len = sum_list (map (\<lambda>s. sint (length_raw s)) (take (nat (sint (sample_cnt L))) si))"
    and "\<forall>k. int k < sint (sample_cnt L) \<longrightarrow>
           peek_long dat (sint (sample_offset L) + 4 + 4 * int k) = Some (length_raw (si ! k))"
    and "\<forall>k. int k < sint (sample_cnt L) \<and> \<not> referenced_peek dat L (int k) \<longrightarrow>
           name_from_instr (si ! k) = None"
proof -
  let ?n = "nat (sint (sample_cnt L))"
  define si0 where "si0 = replicate (unat (sample_cnt L * 16) div 16) zero_info"
  have z: "\<And>k. k < length si0 \<Longrightarrow> si0 ! k = zero_info" by (simp add: si0_def)
  from gather_SomeD [OF assms] obtain si1 where
    r: "read_lengths dat (sample_offset L) (sample_cnt L) 0 (0, si0) = Some (sample_len, si1)"
    and j: "join_instruments dat (sample_cnt L) (instr_cnt L) 0 (instr_offset L) (si1, con) = Some (si, con')"
    unfolding si0_def by (elim exE conjE)
  have z0: "sint (0 :: long) = 0" by simp
  from read_lengths_Some [OF r] have
    len1: "length si1 = length si0"
    and sum1: "sint sample_len = sum_list (map (\<lambda>k. sint (length_raw (si1 ! k))) [0..<?n])"
    and each: "\<forall>k. int k < sint (sample_cnt L) \<longrightarrow> k < length si0
        \<and> (\<exists>v. peek_long dat (sint (sample_offset L) + 4 + 4 * int k) = Some v
               \<and> si1 ! k = (si0 ! k)\<lparr>length_raw := v\<rparr>)"
    by simp_all
  have len: "length si = length si1" using join_instruments_length [OF j] by simp
  have raw: "\<And>k. length_raw (si ! k) = length_raw (si1 ! k)"
    using join_instruments_raw [OF j] by simp
  show n: "?n \<le> length si"
  proof (cases "0 < sint (sample_cnt L)")
    case True
    then have "int (?n - 1) < sint (sample_cnt L)" by simp
    then have "?n - 1 < length si0" using each by blast
    then show ?thesis using len len1 by simp
  next
    case False
    then show ?thesis by simp
  qed
  have "sint sample_len = sum_list (map (\<lambda>k. sint (length_raw (si ! k))) [0..<?n])"
    using sum1 raw by simp
  then show "sint sample_len = sum_list (map (\<lambda>s. sint (length_raw s)) (take ?n si))"
    using map_nth_take [OF n, of "\<lambda>s. sint (length_raw s)"] by simp
  show "\<forall>k. int k < sint (sample_cnt L) \<longrightarrow>
           peek_long dat (sint (sample_offset L) + 4 + 4 * int k) = Some (length_raw (si ! k))"
  proof (intro allI impI)
    fix k assume "int k < sint (sample_cnt L)"
    then obtain v where "peek_long dat (sint (sample_offset L) + 4 + 4 * int k) = Some v"
      and "si1 ! k = (si0 ! k)\<lparr>length_raw := v\<rparr>"
      using each by blast
    then show "peek_long dat (sint (sample_offset L) + 4 + 4 * int k) = Some (length_raw (si ! k))"
      using raw [of k] by simp
  qed
  show "\<forall>k. int k < sint (sample_cnt L) \<and> \<not> referenced_peek dat L (int k) \<longrightarrow>
           name_from_instr (si ! k) = None"
  proof (intro allI impI)
    fix k assume k: "int k < sint (sample_cnt L) \<and> \<not> referenced_peek dat L (int k)"
    then have none: "\<forall>d. int d < sint (instr_cnt L) - sint (0 :: long) \<longrightarrow>
        \<not> refers_peek dat (sint (instr_offset L)) (sample_cnt L) d (int k)"
      by (auto simp: referenced_peek_def list_ex_iff)
    have "si ! k = si1 ! k"
      using join_instruments_untouched [OF j none] by simp
    moreover obtain v where "k < length si0" and "si1 ! k = (si0 ! k)\<lparr>length_raw := v\<rparr>"
      using each k by blast
    ultimately show "name_from_instr (si ! k) = None"
      using z [of k] by (simp add: zero_info_def)
  qed
qed




lemma find_filter_in:
  "find P (filter Q xs) = Some a \<Longrightarrow> a \<in> set xs"
  by (auto simp: find_Some_iff in_set_conv_nth dest!: nth_mem)

lemma uint_be_step:
  fixes w :: "'a::len word" and b :: byte
  assumes "256 * uint w + 255 < 2 ^ LENGTH('a)"
  shows "uint (push_bit 8 w OR ucast b) = 256 * uint w + uint b"
proof -
  have b: "0 \<le> uint b" "uint b < 256" using uint_lt2p [of b] by simp_all
  have w: "0 \<le> uint w" by simp
  have p: "take_bit LENGTH('a) (push_bit 8 (uint w)) = push_bit 8 (uint w)"
    by (rule take_bit_int_eq_self) (use assms w in \<open>simp_all add: push_bit_eq_mult\<close>)
  have u: "take_bit LENGTH('a) (uint b) = uint b"
    by (rule take_bit_int_eq_self) (use assms b w in linarith)+
  have t: "take_bit 8 (uint b) = uint b"
    by (rule take_bit_int_eq_self) (use b in simp_all)
  have "uint (push_bit 8 w OR ucast b) = push_bit 8 (uint w) OR uint b"
    by (simp add: unsigned_or_eq unsigned_push_bit_eq unsigned_ucast_eq p u)
  also have "\<dots> = concat_bit 8 (uint b) (uint w)"
    by (simp add: concat_bit_def t or.commute)
  also have "\<dots> = uint b + 256 * uint w"
    by (simp add: concat_bit_eq t push_bit_eq_mult)
  finally show ?thesis by simp
qed

lemma uint_be_word_long:
  "uint (be_word [b0, b1, b2, b3] :: long)
     = 16777216 * uint b0 + 65536 * uint b1 + 256 * uint b2 + uint b3"
proof -
  have r: "uint (b :: byte) < 256" for b using uint_lt2p [of b] by simp
  define w1 :: long where "w1 = push_bit 8 0 OR ucast b0"
  define w2 :: long where "w2 = push_bit 8 w1 OR ucast b1"
  define w3 :: long where "w3 = push_bit 8 w2 OR ucast b2"
  have 1: "uint w1 = uint b0"
    unfolding w1_def using uint_be_step [of "0 :: long" b0] by simp
  have 2: "uint w2 = 256 * uint b0 + uint b1"
    unfolding w2_def using uint_be_step [of w1 b1] 1 r [of b0] by simp
  have 3: "uint w3 = 65536 * uint b0 + 256 * uint b1 + uint b2"
    unfolding w3_def using uint_be_step [of w2 b2] 2 r [of b0] r [of b1] by simp
  have "uint (push_bit 8 w3 OR ucast b3 :: long)
      = 16777216 * uint b0 + 65536 * uint b1 + 256 * uint b2 + uint b3"
    using uint_be_step [of w3 b3] 3 r [of b0] r [of b1] r [of b2] by simp
  then show ?thesis by (simp add: be_word_def w1_def w2_def w3_def)
qed

lemma uint_be_word_ushort:
  "uint (be_word [b0, b1] :: ushort) = 256 * uint b0 + uint b1"
proof -
  have r: "uint (b :: byte) < 256" for b using uint_lt2p [of b] by simp
  define w1 :: ushort where "w1 = push_bit 8 0 OR ucast b0"
  have 1: "uint w1 = uint b0"
    unfolding w1_def using uint_be_step [of "0 :: ushort" b0] by simp
  have "uint (push_bit 8 w1 OR ucast b1 :: ushort) = 256 * uint b0 + uint b1"
    using uint_be_step [of w1 b1] 1 r [of b0] by simp
  then show ?thesis by (simp add: be_word_def w1_def)
qed

lemma sint_long_if:
  "sint (w :: long) = (if uint w < 2147483648 then uint w else uint w - 4294967296)"
proof (cases "uint w < 2147483648")
  case True
  then show ?thesis by (simp add: sint_uint_small)
next
  case False
  have lt: "uint w < 4294967296" using uint_lt2p [of w] by simp
  have "uint w div 2147483648 = 1" using False lt by simp
  then have bit: "bit (uint w) 31" by (simp add: bit_int_def)
  have tb: "take_bit (Suc 31) (uint w) = uint w"
    by (rule take_bit_int_eq_self) (use lt in simp_all)
  have "sint w = signed_take_bit 31 (uint w)" by (simp add: sint_uint)
  also have "\<dots> = uint w - 4294967296"
    unfolding signed_take_bit_eq_take_bit_minus [of 31 "uint w"] tb using bit by simp
  finally show ?thesis using False by simp
qed

lemma sint_ushort_if:
  "sint (w :: ushort) = (if uint w < 32768 then uint w else uint w - 65536)"
proof -
  have lt: "uint w < 65536" using uint_lt2p [of w] by simp
  have s: "sint w = signed_take_bit 15 (uint w)" by (simp add: sint_uint)
  have tb: "take_bit (Suc 15) (uint w) = uint w"
    by (rule take_bit_int_eq_self) (use lt in simp_all)
  show ?thesis
  proof (cases "uint w < 32768")
    case True
    have p: "(2 :: int) ^ 15 = 32768" by simp
    have nn: "0 \<le> uint w" by simp
    have "signed_take_bit 15 (uint w) = uint w"
      by (rule signed_take_bit_int_eq_self) (use True nn in \<open>unfold p, linarith+\<close>)
    then show ?thesis using True s by simp
  next
    case False
    have "uint w div 32768 = 1" using False lt by simp
    then have bit: "bit (uint w) 15" by (simp add: bit_int_def)
    have "signed_take_bit 15 (uint w) = uint w - 65536"
      unfolding signed_take_bit_eq_take_bit_minus [of 15 "uint w"] tb using bit by simp
    then show ?thesis using False s by simp
  qed
qed

lemma sint_long_inject: "sint (a :: long) = sint b \<Longrightarrow> a = b"
proof -
  assume e: "sint a = sint b"
  define ua where "ua = uint a"
  define ub where "ub = uint b"
  have la: "ua < 4294967296" "0 \<le> ua" using uint_lt2p [of a] by (simp_all add: ua_def)
  have lb: "ub < 4294967296" "0 \<le> ub" using uint_lt2p [of b] by (simp_all add: ub_def)
  have "(if ua < 2147483648 then ua else ua - 4294967296)
      = (if ub < 2147483648 then ub else ub - 4294967296)"
    using e unfolding sint_long_if [of a] sint_long_if [of b] ua_def ub_def .
  then have "ua = ub"
    using la lb by (simp split: if_splits)
  then have "uint a = uint b" by (simp add: ua_def ub_def)
  then show ?thesis by (rule word_uint_eqI)
qed

lemma peek_long_in_buffer:
  assumes "0 \<le> a" and "a + 4 \<le> int (length dat)"
  shows "\<exists>v. peek_long dat a = Some v \<and> uint v = u32_at dat a \<and> sint v = s32_at dat a"
proof -
  define n where "n = nat a"
  have n: "n + 4 \<le> length dat" "a = int n" using assms by (simp_all add: n_def)
  have tk: "take 4 (drop n dat) = [dat ! n, dat ! (n + 1), dat ! (n + 2), dat ! (n + 3)]"
    using n(1) by (intro nth_equalityI) (auto simp: nth_Cons' numeral_eq_Suc less_Suc_eq)
  have ix: "nat (int n + 1) = n + 1" "nat (int n + 2) = n + 2" "nat (int n + 3) = n + 3"
    by simp_all
  have p: "peek_long dat a = Some (be_word [dat ! n, dat ! (n + 1), dat ! (n + 2), dat ! (n + 3)])"
    using assms tk by (simp add: peek_long_def peek_def n_def)
  have u: "uint (be_word [dat ! n, dat ! (n + 1), dat ! (n + 2), dat ! (n + 3)] :: long) = u32_at dat a"
    unfolding uint_be_word_long by (simp add: u32_at_def u8_at_def n(2) ix)
  show ?thesis
    using p u by (simp add: s32_at_def sint_long_if)
qed

lemma peek_long_outside:
  "\<not> (0 \<le> a \<and> a + 4 \<le> int (length dat)) \<Longrightarrow> peek_long dat a = None"
  by (auto simp: peek_long_def peek_def)

lemma peek_ushort_in_buffer:
  assumes "0 \<le> a" and "a + 2 \<le> int (length dat)"
  shows "\<exists>v. peek_ushort dat a = Some v \<and> uint v = u16_at dat a \<and> sint v = s16_at dat a"
proof -
  define n where "n = nat a"
  have n: "n + 2 \<le> length dat" "a = int n" using assms by (simp_all add: n_def)
  have tk: "take 2 (drop n dat) = [dat ! n, dat ! (n + 1)]"
    using n(1) by (intro nth_equalityI) (auto simp: nth_Cons' numeral_eq_Suc less_Suc_eq)
  have ix: "nat (int n + 1) = n + 1" by simp
  have p: "peek_ushort dat a = Some (be_word [dat ! n, dat ! (n + 1)])"
    using assms tk by (simp add: peek_ushort_def peek_def n_def)
  have u: "uint (be_word [dat ! n, dat ! (n + 1)] :: ushort) = u16_at dat a"
    unfolding uint_be_word_ushort by (simp add: u16_at_def u8_at_def n(2) ix)
  show ?thesis
    using p u by (simp add: s16_at_def sint_ushort_if)
qed

lemma signature_peek_eq:
  assumes "0 \<le> a" and "a + 8 \<le> int (length dat)"
  shows "signature_peek dat a = signature_at dat a"
proof -
  from peek_long_in_buffer [of a dat] assms obtain v
    where v: "peek_long dat a = Some v" "sint v = s32_at dat a" by auto
  from peek_long_in_buffer [of "a + 4" dat] assms obtain w
    where w: "peek_long dat (a + 4) = Some w" "sint w = s32_at dat (a + 4)" by auto
  have "v = 0x28 \<longleftrightarrow> sint v = 0x28"
  proof
    assume "v = 0x28" then show "sint v = 0x28" by simp
  next
    assume "sint v = 0x28"
    then have "sint v = sint (0x28 :: long)" by simp
    then show "v = 0x28" by (rule sint_long_inject)
  qed
  then show ?thesis
    using v w by (simp add: signature_peek_def signature_at_def)
qed

lemma locate_peek_eq: "locate_peek dat = locate_spec dat"
proof -
  have "find (signature_peek dat) xs = find (signature_at dat) xs"
    if "\<forall>a \<in> set xs. 0 \<le> a \<and> a + 8 \<le> int (length dat)" for xs
    using that by (induction xs) (simp_all add: signature_peek_eq)
  then show ?thesis
    unfolding locate_peek_def locate_spec_def by (rule meta_mp) auto
qed

lemma findsong_locate:
  assumes "sint sz = int (length dat)"
  shows "findsong dat sz = Some (case locate_spec dat of Some a \<Rightarrow> word_of_int a | None \<Rightarrow> - 1)"
    and "song_found (case locate_spec dat of Some a \<Rightarrow> word_of_int a | None \<Rightarrow> - 1) sz
           = Some (locate_spec dat \<noteq> None)"
    and "\<And>a. locate_spec dat = Some a \<Longrightarrow>
           0 \<le> a \<and> a < int (length dat) - 40 \<and> sint (word_of_int a :: long) = a"
proof -
  have small: "int (length dat) < 2 ^ 31" using assms sint_lt [of sz] by simp
  have nn: "0 \<le> sint sz" using assms by simp
  have "in_long (sint sz - sint (0x28 :: long))"
    using nn sint_lt [of sz] by (simp add: in_long_def)
  then have sub: "sub_long sz 0x28 = Some (sz - 0x28)" by (simp add: sub_long_def)
  have mx: "sint (sz - 0x28) = int (length dat) - 40"
    using sint_sub_long [OF sub] assms by simp
  have loop: "findsong_loop dat (sz - 0x28) 0 =
      Some (case find (signature_peek dat) (filter even [sint (0 :: long)..sint (sz - 0x28) - 1]) of
              Some a \<Rightarrow> word_of_int a | None \<Rightarrow> - 1)"
    by (rule findsong_loop_find) (use small mx in simp_all)
  show "findsong dat sz = Some (case locate_spec dat of Some a \<Rightarrow> word_of_int a | None \<Rightarrow> - 1)"
    using sub loop mx by (simp add: findsong_def locate_peek_eq [symmetric] locate_peek_def)
  have "in_long (sint sz - sint (28 :: long))"
    using nn sint_lt [of sz] by (simp add: in_long_def)
  then have sub28: "sub_long sz 28 = Some (sz - 28)" by (simp add: sub_long_def)
  have lim: "sint (sz - 28) = int (length dat) - 28"
    using sint_sub_long [OF sub28] assms by simp
  show range: "0 \<le> a \<and> a < int (length dat) - 40 \<and> sint (word_of_int a :: long) = a"
    if "locate_spec dat = Some a" for a
  proof -
    from that have "a \<in> set [0..int (length dat) - 0x28 - 1]"
      unfolding locate_spec_def by (rule find_filter_in)
    then have a: "0 \<le> a" "a < int (length dat) - 40" by simp_all
    then have "in_long a" using small by (simp add: in_long_def)
    then have "sint (word_of_int a :: long) = a" by (rule sint_word_of_int_long)
    with a show ?thesis by simp
  qed
  show "song_found (case locate_spec dat of Some a \<Rightarrow> word_of_int a | None \<Rightarrow> - 1) sz
           = Some (locate_spec dat \<noteq> None)"
  proof (cases "locate_spec dat")
    case None
    then show ?thesis by (simp add: song_found_def)
  next
    case (Some a)
    show ?thesis
      using Some range [OF Some] sub28 lim by (simp add: song_found_def word_sless_alt)
  qed
qed

lemma locate_spec_Some:
  "locate_spec dat = Some a \<Longrightarrow> even a \<and> signature_at dat a"
  by (auto simp: locate_spec_def find_Some_iff dest!: nth_mem)

lemma findsong_located:
  assumes f: "findsong dat sz = Some offset" and s: "song_found offset sz = Some True"
    and z: "sint sz = int (length dat)"
  shows "locate_spec dat = Some (sint offset)" and "0 \<le> sint offset"
    and "sint offset < int (length dat) - 40"
proof -
  show l: "locate_spec dat = Some (sint offset)"
  proof (cases "locate_spec dat")
    case None
    then have "offset = - 1" using f findsong_locate(1) [OF z] by simp
    then show ?thesis using s by (simp add: song_found_def)
  next
    case (Some a)
    then have "offset = word_of_int a" using f findsong_locate(1) [OF z] by simp
    then show ?thesis using Some findsong_locate(3) [OF z Some] by simp
  qed
  from findsong_locate(3) [OF z l] show "0 \<le> sint offset" "sint offset < int (length dat) - 40"
    by simp_all
qed

lemma convert_song_not_found:
  assumes "in_file e = Some content" and "fread_all e content (st_size e) = Some (dat, n)"
    and "findsong dat (st_size e) = Some offset" and "song_found offset (st_size e) = Some False"
  shows "\<exists>con. convert e = Some \<lparr> rc = 0, console = con @ [Song_Not_Found], out_file = None \<rparr>"
  using assms by (simp add: convert_def Let_def)

lemma add_long_Some_iff:
  "add_long a b = Some c \<longleftrightarrow> in_long (sint a + sint b) \<and> sint c = sint a + sint b"
proof
  assume "add_long a b = Some c"
  then show "in_long (sint a + sint b) \<and> sint c = sint a + sint b"
    using sint_add_long [of a b c] by (simp add: add_long_def split: if_splits)
next
  assume r: "in_long (sint a + sint b) \<and> sint c = sint a + sint b"
  then have s: "add_long a b = Some (a + b)" by (simp add: add_long_def)
  from sint_add_long [OF s] r have "sint c = sint (a + b)" by simp
  then have "c = a + b" by (rule sint_long_inject)
  with s show "add_long a b = Some c" by simp
qed

lemma sub_long_Some_iff:
  "sub_long a b = Some c \<longleftrightarrow> in_long (sint a - sint b) \<and> sint c = sint a - sint b"
proof
  assume "sub_long a b = Some c"
  then show "in_long (sint a - sint b) \<and> sint c = sint a - sint b"
    using sint_sub_long [of a b c] by (simp add: sub_long_def split: if_splits)
next
  assume r: "in_long (sint a - sint b) \<and> sint c = sint a - sint b"
  then have s: "sub_long a b = Some (a - b)" by (simp add: sub_long_def)
  from sint_sub_long [OF s] r have "sint c = sint (a - b)" by simp
  then have "c = a - b" by (rule sint_long_inject)
  with s show "sub_long a b = Some c" by simp
qed

lemma abs_offset_Some_iff:
  assumes "0 \<le> sint offset + k" and "sint offset + k + 4 \<le> int (length dat)"
  shows "abs_offset dat offset k = Some x
     \<longleftrightarrow> in_long (abs_at dat (sint offset) k) \<and> sint x = abs_at dat (sint offset) k"
proof -
  from peek_long_in_buffer [OF assms] obtain r
    where r: "peek_long dat (sint offset + k) = Some r" "sint r = s32_at dat (sint offset + k)"
    by blast
  show ?thesis
    using r by (simp add: abs_offset_def abs_at_def add_long_Some_iff)
qed

lemma resolve_Some_iff:
  assumes a: "0 \<le> sint offset" and b: "sint offset + 32 \<le> int (length dat)"
  shows "resolve dat offset = Some L \<longleftrightarrow>
     layout_defined dat (sint offset)
     \<and> map sint [song_offset L, over_offset L, note_offset L, instr_offset L,
                  wave_offset L, adsr_offset L, amf_offset L, sample_offset L]
         = map (abs_at dat (sint offset)) [0, 4, 8, 12, 16, 20, 24, 28]
     \<and> sint (song_len L) = sint (over_offset L) - sint (song_offset L)
     \<and> sint (over_len L) = sint (note_offset L) - sint (over_offset L)
     \<and> sint (note_len L) = sint (instr_offset L) - sint (note_offset L)
     \<and> sint (instr_len L) = sint (wave_offset L) - sint (instr_offset L)
     \<and> sint (wave_len L) = sint (adsr_offset L) - sint (wave_offset L)
     \<and> sint (adsr_len L) = sint (amf_offset L) - sint (adsr_offset L)
     \<and> sint (amf_len L) = sint (sample_offset L) - sint (amf_offset L)
     \<and> sint (song_cnt L) = sint (song_len L) sdiv 12
     \<and> sint (over_cnt L) = sint (over_len L) sdiv 16
     \<and> sint (note_cnt L) = sint (note_len L) sdiv 4
     \<and> sint (instr_cnt L) = sint (instr_len L) sdiv 152
     \<and> sint (wave_cnt L) = sint (wave_len L) sdiv 128
     \<and> sint (adsr_cnt L) = sint (adsr_len L) sdiv 128
     \<and> sint (amf_cnt L) = sint (amf_len L) sdiv 128
     \<and> sint (sample_cnt L) = s32_at dat (sint (sample_offset L))"
    (is "?lhs \<longleftrightarrow> ?rhs")
proof
  note A = abs_offset_Some_iff [of offset _ dat]
  assume l: ?lhs
  note D = resolve_SomeD [OF l]
  have o: "in_long (abs_at dat (sint offset) 0) \<and> sint (song_offset L) = abs_at dat (sint offset) 0"
    "in_long (abs_at dat (sint offset) 4) \<and> sint (over_offset L) = abs_at dat (sint offset) 4"
    "in_long (abs_at dat (sint offset) 8) \<and> sint (note_offset L) = abs_at dat (sint offset) 8"
    "in_long (abs_at dat (sint offset) 12) \<and> sint (instr_offset L) = abs_at dat (sint offset) 12"
    "in_long (abs_at dat (sint offset) 16) \<and> sint (wave_offset L) = abs_at dat (sint offset) 16"
    "in_long (abs_at dat (sint offset) 20) \<and> sint (adsr_offset L) = abs_at dat (sint offset) 20"
    "in_long (abs_at dat (sint offset) 24) \<and> sint (amf_offset L) = abs_at dat (sint offset) 24"
    "in_long (abs_at dat (sint offset) 28) \<and> sint (sample_offset L) = abs_at dat (sint offset) 28"
    using D(1-8) a b by (simp_all add: A)
  have s: "in_long (sint (over_offset L) - sint (song_offset L))
      \<and> sint (song_len L) = sint (over_offset L) - sint (song_offset L)"
    "in_long (sint (note_offset L) - sint (over_offset L))
      \<and> sint (over_len L) = sint (note_offset L) - sint (over_offset L)"
    "in_long (sint (instr_offset L) - sint (note_offset L))
      \<and> sint (note_len L) = sint (instr_offset L) - sint (note_offset L)"
    "in_long (sint (wave_offset L) - sint (instr_offset L))
      \<and> sint (instr_len L) = sint (wave_offset L) - sint (instr_offset L)"
    "in_long (sint (adsr_offset L) - sint (wave_offset L))
      \<and> sint (wave_len L) = sint (adsr_offset L) - sint (wave_offset L)"
    "in_long (sint (amf_offset L) - sint (adsr_offset L))
      \<and> sint (adsr_len L) = sint (amf_offset L) - sint (adsr_offset L)"
    "in_long (sint (sample_offset L) - sint (amf_offset L))
      \<and> sint (amf_len L) = sint (sample_offset L) - sint (amf_offset L)"
    using D(9-15) by (simp_all add: sub_long_Some_iff)
  have inb: "0 \<le> sint (sample_offset L) \<and> sint (sample_offset L) + 4 \<le> int (length dat)"
    using D(16) peek_long_outside [of "sint (sample_offset L)" dat] by (cases "0 \<le> sint (sample_offset L) \<and> sint (sample_offset L) + 4 \<le> int (length dat)") simp_all
  from peek_long_in_buffer [of "sint (sample_offset L)" dat] inb D(16)
  have cnt: "sint (sample_cnt L) = s32_at dat (sint (sample_offset L))" by auto
  have def: "layout_defined dat (sint offset)"
    unfolding layout_defined_def using o s inb by simp
  show ?rhs
    using def o s cnt D(17-23) by (simp add: sint_div_long)
next
  assume r: ?rhs
  have A: "abs_offset dat offset k = Some x"
    if "0 \<le> k" "k \<le> 28" "in_long (abs_at dat (sint offset) k)" "sint x = abs_at dat (sint offset) k"
    for k x
    using that a b by (subst abs_offset_Some_iff) simp_all
  from r have d: "layout_defined dat (sint offset)" by blast
  have o: "abs_offset dat offset 0 = Some (song_offset L)"
    "abs_offset dat offset 4 = Some (over_offset L)"
    "abs_offset dat offset 8 = Some (note_offset L)"
    "abs_offset dat offset 12 = Some (instr_offset L)"
    "abs_offset dat offset 16 = Some (wave_offset L)"
    "abs_offset dat offset 20 = Some (adsr_offset L)"
    "abs_offset dat offset 24 = Some (amf_offset L)"
    "abs_offset dat offset 28 = Some (sample_offset L)"
    using r by (simp_all add: A layout_defined_def)
  have s: "sub_long (over_offset L) (song_offset L) = Some (song_len L)"
    "sub_long (note_offset L) (over_offset L) = Some (over_len L)"
    "sub_long (instr_offset L) (note_offset L) = Some (note_len L)"
    "sub_long (wave_offset L) (instr_offset L) = Some (instr_len L)"
    "sub_long (adsr_offset L) (wave_offset L) = Some (wave_len L)"
    "sub_long (amf_offset L) (adsr_offset L) = Some (adsr_len L)"
    "sub_long (sample_offset L) (amf_offset L) = Some (amf_len L)"
    using r by (simp_all add: sub_long_Some_iff layout_defined_def)
  have inb: "0 \<le> sint (sample_offset L)" "sint (sample_offset L) + 4 \<le> int (length dat)"
    using r by (simp_all add: layout_defined_def)
  from peek_long_in_buffer [OF inb] obtain v
    where v: "peek_long dat (sint (sample_offset L)) = Some v"
      "sint v = s32_at dat (sint (sample_offset L))" by blast
  have "sint v = sint (sample_cnt L)" using v(2) r by simp
  then have vc: "v = sample_cnt L" by (rule sint_long_inject)
  have c: "song_cnt L = div_long (song_len L) 12" "over_cnt L = div_long (over_len L) 16"
    "note_cnt L = div_long (note_len L) 4" "instr_cnt L = div_long (instr_len L) 152"
    "wave_cnt L = div_long (wave_len L) 128" "adsr_cnt L = div_long (adsr_len L) 128"
    "amf_cnt L = div_long (amf_len L) 128"
    using r by (auto intro!: sint_long_inject simp: sint_div_long)
  show ?lhs
    unfolding resolve_def using o s v(1) vc c by simp
qed

lemma resolve_defined:
  assumes a: "0 \<le> sint offset" and b: "sint offset + 32 \<le> int (length dat)"
    and d: "layout_defined dat (sint offset)"
  shows "\<exists>L. resolve dat offset = Some L"
proof -
  define x where "x k = (word_of_int (abs_at dat (sint offset) k) :: long)" for k
  have in8: "in_long (abs_at dat (sint offset) k)" if "k \<in> set [0, 4, 8, 12, 16, 20, 24, 28]" for k
    using d that unfolding layout_defined_def list_all_iff by blast
  have sx: "sint (x k) = abs_at dat (sint offset) k" if "k \<in> set [0, 4, 8, 12, 16, 20, 24, 28]" for k
    unfolding x_def using in8 [OF that] by (rule sint_word_of_int_long)
  have ax: "abs_offset dat offset k = Some (x k)" if "k \<in> set [0, 4, 8, 12, 16, 20, 24, 28]" for k
    using that a b in8 [OF that] sx [OF that] by (subst abs_offset_Some_iff) auto
  have in7: "in_long (abs_at dat (sint offset) (k + 4) - abs_at dat (sint offset) k)"
    if "k \<in> set [0, 4, 8, 12, 16, 20, 24]" for k
    using d that unfolding layout_defined_def list_all_iff by blast
  have sb: "sub_long (x (k + 4)) (x k) = Some (x (k + 4) - x k)"
    if "k \<in> set [0, 4, 8, 12, 16, 20, 24]" for k
  proof -
    have "sint (x (k + 4)) = abs_at dat (sint offset) (k + 4)" "sint (x k) = abs_at dat (sint offset) k"
      using that by (auto intro!: sx)
    then show ?thesis using in7 [OF that] by (simp add: sub_long_def)
  qed
  have inb: "0 \<le> sint (x 28)" "sint (x 28) + 4 \<le> int (length dat)"
    using d sx [of 28] by (simp_all add: layout_defined_def)
  from peek_long_in_buffer [OF inb] obtain v
    where v: "peek_long dat (sint (x 28)) = Some v" by blast
  show ?thesis
    unfolding resolve_def
    using ax [of 0] ax [of 4] ax [of 8] ax [of 12] ax [of 16] ax [of 20] ax [of 24] ax [of 28]
      sb [of 0] sb [of 4] sb [of 8] sb [of 12] sb [of 16] sb [of 20] sb [of 24] v
    by simp
qed

lemma uint_ushort_0: "(v :: ushort) = 0 \<longleftrightarrow> uint v = 0"
  by (simp add: word_uint_eq_iff)

lemma refers_peek_eq:
  assumes "0 \<le> base + 152 * int j" and "base + 152 * int j + 4 \<le> int (length dat)"
  shows "refers_peek dat base smp j k = refers dat base smp j k"
proof -
  from peek_ushort_in_buffer [of "base + 152 * int j" dat] assms obtain v
    where v: "peek_ushort dat (base + 152 * int j) = Some v" "uint v = u16_at dat (base + 152 * int j)"
    by auto
  from peek_ushort_in_buffer [of "base + 152 * int j + 2" dat] assms obtain x
    where x: "peek_ushort dat (base + 152 * int j + 2) = Some x"
      "sint x = s16_at dat (base + 152 * int j + 2)"
    by auto
  show ?thesis
    using v x uint_ushort_0 [of v] by (auto simp: refers_peek_def refers_def)
qed

lemma uint_ucast_ushort: "uint (ucast (l :: ushort) :: long) = uint l"
  by (rule uint_up_ucast) (simp add: is_up)

lemma join_record_defined:
  assumes a: "0 \<le> sint ioff" and b: "sint ioff + 8 \<le> int (length dat)"
    and c: "nat (sint smp) \<le> length (fst st)"
  shows "\<exists>x. uint x = u16_at dat (sint ioff + 2)
      \<and> join_record dat smp i ioff st
          = (if stray dat (sint ioff) smp
             then Some (fst st, snd st @ [Inconsistent_Sample_Id x i])
             else if u16_at dat (sint ioff) = 0
             then Some ((fst st)[nat (s16_at dat (sint ioff + 2))
                    := with_instr (word_of_int (u16_at dat (sint ioff + 4)))
                         (word_of_int (u16_at dat (sint ioff + 6))) (sint ioff + 0x7a)
                         (fst st ! nat (s16_at dat (sint ioff + 2)))], snd st)
             else Some st)"
proof -
  from peek_ushort_in_buffer [of "sint ioff" dat] a b obtain v
    where v: "peek_ushort dat (sint ioff) = Some v" "uint v = u16_at dat (sint ioff)" by auto
  from peek_ushort_in_buffer [of "sint ioff + 2" dat] a b obtain x
    where x: "peek_ushort dat (sint ioff + 2) = Some x" "uint x = u16_at dat (sint ioff + 2)"
      "sint x = s16_at dat (sint ioff + 2)" by auto
  from peek_ushort_in_buffer [of "sint ioff + 4" dat] a b obtain l
    where l: "peek_ushort dat (sint ioff + 4) = Some l" "uint l = u16_at dat (sint ioff + 4)" by auto
  from peek_ushort_in_buffer [of "sint ioff + 6" dat] a b obtain r
    where r: "peek_ushort dat (sint ioff + 6) = Some r" "uint r = u16_at dat (sint ioff + 6)" by auto
  have wl: "word_of_int (u16_at dat (sint ioff + 4)) = l" using l(2) [symmetric] by simp
  have wr: "word_of_int (u16_at dat (sint ioff + 6)) = r" using r(2) [symmetric] by simp
  have v0: "v = 0 \<longleftrightarrow> u16_at dat (sint ioff) = 0" using v(2) uint_ushort_0 [of v] by simp
  obtain si con where st: "st = (si, con)" by (cases st)
  have ok: "nat (sint x) < length si" if "0 \<le> sint x" "sint x < sint smp"
    using that c st by simp
  have "join_record dat smp i ioff st
          = (if stray dat (sint ioff) smp
             then Some (fst st, snd st @ [Inconsistent_Sample_Id x i])
             else if u16_at dat (sint ioff) = 0
             then Some ((fst st)[nat (s16_at dat (sint ioff + 2))
                    := with_instr (word_of_int (u16_at dat (sint ioff + 4)))
                         (word_of_int (u16_at dat (sint ioff + 6))) (sint ioff + 0x7a)
                         (fst st ! nat (s16_at dat (sint ioff + 2)))], snd st)
             else Some st)"
    unfolding wl wr
    using v(1) x(1) l(1) r(1) v0 x(3) [symmetric] ok
    by (auto simp: st join_record_def stray_def set_entry_def with_instr_def)
  with x(2) show ?thesis by blast
qed

lemma complaints_Suc:
  "complaints dat base smp i (Suc n)
     = (if stray dat base smp
        then [Inconsistent_Sample_Id (word_of_int (u16_at dat (base + 2))) i] else [])
       @ complaints dat (base + 152) smp (i + 1) n"
proof -
  have e: "[0..<Suc n] = 0 # map Suc [0..<n]"
    by (simp add: upt_conv_Cons map_Suc_upt del: upt_Suc)
  have a: "\<And>d. base + 152 * int (Suc d) = base + 152 + 152 * int d" by simp
  have b: "\<And>d. i + of_nat (Suc d) = i + 1 + of_nat d" by simp
  show ?thesis
    unfolding complaints_def e
    by (simp only: list.map concat.simps map_map comp_def a b) simp
qed

lemma join_instruments_table:
  "int (length dat) < 2147483648 \<Longrightarrow> 0 \<le> sint ioff \<Longrightarrow>
   sint ioff + 152 * (sint ic - sint i) \<le> int (length dat) \<Longrightarrow>
   nat (sint smp) \<le> length (fst st) \<Longrightarrow>
   \<exists>st'. join_instruments dat smp ic i ioff st = Some st'
     \<and> snd st' = snd st @ complaints dat (sint ioff) smp i (nat (sint ic - sint i))"
proof (induction dat smp ic i ioff st rule: join_instruments.induct)
  case (1 dat smp ic i ioff st)
  show ?case
  proof (cases "i <s ic")
    case True
    have lt: "sint i < sint ic" using True by (simp add: word_sless_alt)
    have "152 \<le> 152 * (sint ic - sint i)" using lt by simp
    then have b: "sint ioff + 8 \<le> int (length dat)" using "1.prems"(3) by linarith
    from join_record_defined [OF "1.prems"(2) b "1.prems"(4), of i] obtain x
      where x: "uint x = u16_at dat (sint ioff + 2)"
        and jr: "join_record dat smp i ioff st
          = (if stray dat (sint ioff) smp
             then Some (fst st, snd st @ [Inconsistent_Sample_Id x i])
             else if u16_at dat (sint ioff) = 0
             then Some ((fst st)[nat (s16_at dat (sint ioff + 2))
                    := with_instr (word_of_int (u16_at dat (sint ioff + 4)))
                         (word_of_int (u16_at dat (sint ioff + 6))) (sint ioff + 0x7a)
                         (fst st ! nat (s16_at dat (sint ioff + 2)))], snd st)
             else Some st)"
      by blast
    obtain st1 where r: "join_record dat smp i ioff st = Some st1"
      using jr by (cases "stray dat (sint ioff) smp"; cases "u16_at dat (sint ioff) = 0") simp_all
    have c: "snd st1 = snd st @ (if stray dat (sint ioff) smp
                  then [Inconsistent_Sample_Id x i] else [])"
      using jr r by (cases "stray dat (sint ioff) smp"; cases "u16_at dat (sint ioff) = 0") auto
    have wx: "word_of_int (u16_at dat (sint ioff + 2)) = x" using x [symmetric] by simp
    have "in_long (sint ioff + sint (0x98 :: long))"
      using "1.prems"(1,2,3) lt by (simp add: in_long_def)
    then have o: "add_long ioff 0x98 = Some (ioff + 0x98)" by (rule add_long_eq_Some)
    have "in_long (sint i + sint (1 :: long))"
      using lt sint_lt [of ic] sint_ge [of i] by (simp add: in_long_def)
    then have n: "add_long i 1 = Some (i + 1)" by (rule add_long_eq_Some)
    have i': "sint (i + 1) = sint i + 1" using sint_add_long [OF n] by simp
    have o': "sint (ioff + 0x98) = sint ioff + 152" using sint_add_long [OF o] by simp
    have p2: "0 \<le> sint (ioff + 0x98)" using o' "1.prems"(2) by simp
    have p3: "sint (ioff + 0x98) + 152 * (sint ic - sint (i + 1)) \<le> int (length dat)"
      using o' i' "1.prems"(3) by simp
    have p4: "nat (sint smp) \<le> length (fst st1)"
      using join_record_length [OF r] "1.prems"(4) by simp
    from "1.IH" [OF True r o n "1.prems"(1) p2 p3 p4] obtain st'
      where run: "join_instruments dat smp ic (i + 1) (ioff + 0x98) st1 = Some st'"
        and con: "snd st' = snd st1 @ complaints dat (sint (ioff + 0x98)) smp (i + 1)
                    (nat (sint ic - sint (i + 1)))"
      by blast
    have cnt: "nat (sint ic - sint i) = Suc (nat (sint ic - sint (i + 1)))"
      using lt i' by simp
    have "join_instruments dat smp ic i ioff st = Some st'"
      using True r o n run by (subst join_instruments.simps) simp
    moreover have "snd st' = snd st @ complaints dat (sint ioff) smp i (nat (sint ic - sint i))"
      unfolding cnt complaints_Suc using con c wx o' by simp
    ultimately show ?thesis by blast
  next
    case False
    then have "sint ic - sint i \<le> 0" by (simp add: word_sless_alt)
    then show ?thesis using False by (simp add: join_instruments_done complaints_def)
  qed
qed

lemma table_refers_peek:
  assumes "0 \<le> base" and "base + 152 * n \<le> int (length dat)" and "int j < n"
  shows "refers_peek dat base smp j k = refers dat base smp j k"
proof -
  have "152 * int j + 152 \<le> 152 * n" using assms(3) by simp
  then show ?thesis
    using assms by (intro refers_peek_eq) linarith+
qed

lemma join_instruments_table_last:
  assumes small: "int (length dat) < 2147483648"
    and lo: "0 \<le> sint io" and hi: "sint io + 152 * sint ic \<le> int (length dat)"
    and alloc: "nat (sint smp) \<le> length si"
    and j: "int j < sint ic"
    and ref: "refers dat (sint io) smp j k"
    and last: "\<forall>j'. j < j' \<and> int j' < sint ic \<longrightarrow> \<not> refers dat (sint io) smp j' k"
  shows "\<exists>si'. join_instruments dat smp ic 0 io (si, con)
          = Some (si', con @ complaints dat (sint io) smp 0 (nat (sint ic)))
      \<and> length si' = length si \<and> nat k < length si
      \<and> length_raw (si' ! nat k) = length_raw (si ! nat k)
      \<and> uint (length_from_instr (si' ! nat k)) = u16_at dat (sint io + 152 * int j + 4)
      \<and> uint (repeat_from_instr (si' ! nat k)) = u16_at dat (sint io + 152 * int j + 6)
      \<and> name_from_instr (si' ! nat k) = Some (sint io + 152 * int j + 0x7a)
      \<and> name_bytes dat (si' ! nat k) = Some (take 30 (drop (nat (sint io + 152 * int j + 0x7a)) dat))
      \<and> length (take 30 (drop (nat (sint io + 152 * int j + 0x7a)) dat)) = 30"
proof -
  have hi0: "sint io + 152 * (sint ic - sint (0 :: long)) \<le> int (length dat)" using hi by simp
  have al: "nat (sint smp) \<le> length (fst (si, con))" using alloc by simp
  from join_instruments_table [OF small lo hi0 al] obtain si' con'
    where run: "join_instruments dat smp ic 0 io (si, con) = Some (si', con')"
      and con: "con' = con @ complaints dat (sint io) smp 0 (nat (sint ic))"
    by auto
  have k0: "0 \<le> k" using ref by (simp add: refers_def)
  define n where "n = nat k"
  have kn: "int n = k" using k0 by (simp add: n_def)
  have j0: "int j < sint ic - sint (0 :: long)" using j by simp
  have ref': "refers_peek dat (sint io) smp j (int n)"
    using ref kn table_refers_peek [OF lo hi j] by simp
  have last': "\<forall>d'. j < d' \<and> int d' < sint ic - sint (0 :: long) \<longrightarrow>
      \<not> refers_peek dat (sint io) smp d' (int n)"
    using last kn table_refers_peek [OF lo hi] by simp
  from join_instruments_last [OF run j0 ref' last'] obtain l r where
    k: "n < length si"
    and l: "peek_ushort dat (sint io + 152 * int j + 4) = Some l"
    and r: "peek_ushort dat (sint io + 152 * int j + 6) = Some r"
    and v: "si' ! n = with_instr l r (sint io + 152 * int j + 0x7a) (si ! n)"
    by auto
  have len: "length si' = length si" using join_instruments_length [OF run] by simp
  have rec: "0 \<le> sint io + 152 * int j" "sint io + 152 * int j + 152 \<le> int (length dat)"
    using lo hi j by linarith+
  from peek_ushort_in_buffer [of "sint io + 152 * int j + 4" dat] rec l
  have ul: "uint l = u16_at dat (sint io + 152 * int j + 4)" by auto
  from peek_ushort_in_buffer [of "sint io + 152 * int j + 6" dat] rec r
  have ur: "uint r = u16_at dat (sint io + 152 * int j + 6)" by auto
  have nb: "name_bytes dat (si' ! n) = Some (take 30 (drop (nat (sint io + 152 * int j + 0x7a)) dat))"
    using rec v by (simp add: name_bytes_def with_instr_def peek_def)
  have ln: "length (take 30 (drop (nat (sint io + 152 * int j + 0x7a)) dat)) = 30"
    using rec by simp
  show ?thesis
    using run con len k v ul ur nb ln
    by (simp add: n_def with_instr_def uint_ucast_ushort)
qed

lemma join_instruments_table_untouched:
  assumes small: "int (length dat) < 2147483648"
    and lo: "0 \<le> sint io" and hi: "sint io + 152 * sint ic \<le> int (length dat)"
    and run: "join_instruments dat smp ic 0 io (si, con) = Some (si', con')"
    and none: "\<forall>j. int j < sint ic \<longrightarrow> \<not> refers dat (sint io) smp j (int k)"
  shows "si' ! k = si ! k"
proof -
  have "\<forall>d. int d < sint ic - sint (0 :: long) \<longrightarrow> \<not> refers_peek dat (sint io) smp d (int k)"
    using none table_refers_peek [OF lo hi] by simp
  from join_instruments_untouched [OF run this] show ?thesis by simp
qed

lemma complaints_none:
  "(\<forall>d < n. \<not> stray dat (base + 152 * int d) smp) \<Longrightarrow> complaints dat base smp i n = []"
  by (simp add: complaints_def)

section \<open>The properties\<close>



text \<open>
  C2. For a buffer and the anchor that findsong and the test of convert accept, the eight
  32-bit relative offsets at the anchor (displacements 0, 4, ..., 28 from it) lie in the
  buffer. resolve returns a layout exactly when the eight sums of anchor and relative
  offset and the seven differences of consecutive sums are values of a \<^verbatim>\<open>long\<close> and the
  sample count at the last sum lies in the buffer. The layout it returns has as absolute
  offsets of song, overview, note, instrument, wave, ADSR, AMF and sample the anchor plus
  the relative offset read from the bytes; each length is the next absolute offset minus
  the section's own; the counts of the first seven sections are the lengths divided (as C
  divides, towards zero) by 12, 16, 4, 152, 128, 128 and 128; and the sample count is the
  32-bit value of the four bytes at the absolute offset of the sample section.
\<close>

theorem resolve_layout:
  assumes "findsong dat sz = Some offset" and "song_found offset sz = Some True"
    and "sint sz = int (length dat)"
  shows "0 \<le> sint offset \<and> sint offset + 32 \<le> int (length dat)
     \<and> (if layout_defined dat (sint offset) then \<exists>L. resolve dat offset = Some L
         else resolve dat offset = None)
     \<and> (\<forall>L. resolve dat offset = Some L \<longrightarrow>
           map sint [song_offset L, over_offset L, note_offset L, instr_offset L,
                     wave_offset L, adsr_offset L, amf_offset L, sample_offset L]
             = map (\<lambda>k. sint offset + s32_at dat (sint offset + k)) [0, 4, 8, 12, 16, 20, 24, 28]
         \<and> sint (song_len L) = sint (over_offset L) - sint (song_offset L)
         \<and> sint (over_len L) = sint (note_offset L) - sint (over_offset L)
         \<and> sint (note_len L) = sint (instr_offset L) - sint (note_offset L)
         \<and> sint (instr_len L) = sint (wave_offset L) - sint (instr_offset L)
         \<and> sint (wave_len L) = sint (adsr_offset L) - sint (wave_offset L)
         \<and> sint (adsr_len L) = sint (amf_offset L) - sint (adsr_offset L)
         \<and> sint (amf_len L) = sint (sample_offset L) - sint (amf_offset L)
         \<and> sint (song_cnt L) = sint (song_len L) sdiv 12
         \<and> sint (over_cnt L) = sint (over_len L) sdiv 16
         \<and> sint (note_cnt L) = sint (note_len L) sdiv 4
         \<and> sint (instr_cnt L) = sint (instr_len L) sdiv 152
         \<and> sint (wave_cnt L) = sint (wave_len L) sdiv 128
         \<and> sint (adsr_cnt L) = sint (adsr_len L) sdiv 128
         \<and> sint (amf_cnt L) = sint (amf_len L) sdiv 128
         \<and> sint (sample_cnt L) = s32_at dat (sint (sample_offset L)))"
proof -
  have a: "0 \<le> sint offset" and c: "sint offset < int (length dat) - 40"
    using findsong_located(2,3) [OF assms] by simp_all
  then have b: "sint offset + 32 \<le> int (length dat)" by simp
  note R = resolve_Some_iff [OF a b]
  have 1: "if layout_defined dat (sint offset) then \<exists>L. resolve dat offset = Some L
         else resolve dat offset = None"
  proof (cases "layout_defined dat (sint offset)")
    case True
    then show ?thesis using resolve_defined [OF a b] by simp
  next
    case False
    have "resolve dat offset = None"
    proof (cases "resolve dat offset")
      case None then show ?thesis .
    next
      case (Some L)
      then show ?thesis using R [of L] False by simp
    qed
    with False show ?thesis by simp
  qed
  show ?thesis
    using a b 1 by (simp add: R abs_at_def)
qed

theorem resolve_layout_witness:
  "findsong skew_file 401 = Some 42 \<and> song_found 42 401 = Some True
   \<and> layout_defined skew_file 42
   \<and> (\<exists>L. resolve skew_file 42 = Some L
        \<and> map sint [song_offset L, over_offset L, note_offset L, instr_offset L,
                     wave_offset L, adsr_offset L, amf_offset L, sample_offset L]
            = [82, 339, 342, 542, 372, 382, 392, 397]
        \<and> sint (song_len L) = 257 \<and> sint (song_cnt L) = 21
        \<and> sint (instr_len L) = - 170 \<and> sint (instr_cnt L) = - 1
        \<and> sint (sample_cnt L) = 16909060)"
proof -
  have f: "findsong skew_file 401 = Some 42" by code_simp
  have s: "song_found 42 401 = Some True" by code_simp
  have z: "sint (401 :: long) = int (length skew_file)" by code_simp
  have d: "layout_defined skew_file (sint (42 :: long))" by code_simp
  have o: "map (\<lambda>k. sint (42 :: long) + s32_at skew_file (sint (42 :: long) + k))
      [0, 4, 8, 12, 16, 20, 24, 28] = [82, 339, 342, 542, 372, 382, 392, 397]"
    by code_simp
  have c: "s32_at skew_file 397 = 16909060" by code_simp
  have q: "(257 :: int) sdiv 12 = 21" "(- 170 :: int) sdiv 152 = - 1"
    by (simp_all add: signed_divide_int_def)
  note T = resolve_layout [OF f s z]
  from T d obtain L where L: "resolve skew_file 42 = Some L" by auto
  from T L have v:
    "map sint [song_offset L, over_offset L, note_offset L, instr_offset L,
               wave_offset L, adsr_offset L, amf_offset L, sample_offset L]
       = map (\<lambda>k. sint (42 :: long) + s32_at skew_file (sint (42 :: long) + k))
           [0, 4, 8, 12, 16, 20, 24, 28]"
    "sint (song_len L) = sint (over_offset L) - sint (song_offset L)"
    "sint (instr_len L) = sint (wave_offset L) - sint (instr_offset L)"
    "sint (song_cnt L) = sint (song_len L) sdiv 12"
    "sint (instr_cnt L) = sint (instr_len L) sdiv 152"
    "sint (sample_cnt L) = s32_at skew_file (sint (sample_offset L))"
    by blast+
  have offs: "map sint [song_offset L, over_offset L, note_offset L, instr_offset L,
               wave_offset L, adsr_offset L, amf_offset L, sample_offset L]
       = [82, 339, 342, 542, 372, 382, 392, 397]"
    using v(1) o by simp
  then have each: "sint (song_offset L) = 82" "sint (over_offset L) = 339"
    "sint (instr_offset L) = 542" "sint (wave_offset L) = 372" "sint (sample_offset L) = 397"
    by simp_all
  have "sint (song_len L) = 257" "sint (instr_len L) = - 170"
    using v(2,3) each by simp_all
  moreover from this have "sint (song_cnt L) = 21" "sint (instr_cnt L) = - 1"
    using v(4,5) q by simp_all
  moreover have "sint (sample_cnt L) = 16909060"
    using v(6) each c by simp
  ultimately show ?thesis
    using f s d L offs by auto
qed

text \<open>
  C3. For a buffer \<open>dat\<close> of \<open>sz\<close> bytes, findsong returns the first even displacement from 0
  up to \<open>sz - 0x28\<close> at which the 32-bit value is \<open>0x28\<close> and the next 32-bit value is greater
  than \<open>0x28\<close> and less than \<open>0x400\<close> (\<open>locate_spec\<close>, stated on the bytes); the test of convert
  accepts it. When there is none, findsong returns \<open>-1\<close>, the test of convert fails, and
  convert prints that the song was not found and writes no file.
\<close>

theorem findsong_first_signature:
  assumes "sint sz = int (length dat)"
  shows "findsong dat sz = Some (case locate_spec dat of Some a \<Rightarrow> word_of_int a | None \<Rightarrow> - 1)
       \<and> song_found (case locate_spec dat of Some a \<Rightarrow> word_of_int a | None \<Rightarrow> - 1) sz
           = Some (locate_spec dat \<noteq> None)
       \<and> (locate_spec dat = None \<longrightarrow>
            (\<forall>e content n. in_file e = Some content \<and> st_size e = sz
                 \<and> fread_all e content sz = Some (dat, n) \<longrightarrow>
               (\<exists>con. convert e
                  = Some \<lparr> rc = 0, console = con @ [Song_Not_Found], out_file = None \<rparr>)))"
proof -
  have "\<exists>con. convert e = Some \<lparr> rc = 0, console = con @ [Song_Not_Found], out_file = None \<rparr>"
    if none: "locate_spec dat = None" and e: "in_file e = Some content" "st_size e = sz"
      "fread_all e content sz = Some (dat, n)" for e content n
  proof (rule convert_song_not_found)
    show "in_file e = Some content" by (rule e(1))
    show "fread_all e content (st_size e) = Some (dat, n)" using e by simp
    show "findsong dat (st_size e) = Some (- 1)"
      using findsong_locate(1) [OF assms] none e(2) by simp
    show "song_found (- 1) (st_size e) = Some False"
      using findsong_locate(2) [OF assms] none e(2) by simp
  qed
  then show ?thesis
    using findsong_locate(1,2) [OF assms] by blast
qed

theorem findsong_first_signature_witness:
  "sint (401 :: long) = int (length skew_file)
   \<and> signature_at skew_file 33
   \<and> locate_spec skew_file = Some 42
   \<and> findsong skew_file 401 = Some 42
   \<and> song_found 42 401 = Some True
   \<and> locate_spec blank_file = None
   \<and> findsong blank_file 64 = Some (- 1)
   \<and> (\<exists>con. convert (file_env blank_file 64)
          = Some \<lparr> rc = 0, console = con @ [Song_Not_Found], out_file = None \<rparr>)"
proof -
  have h: "sint (401 :: long) = int (length skew_file)"
    by code_simp
  have o: "signature_at skew_file 33"
    by code_simp
  have l: "locate_spec skew_file = Some 42"
    by code_simp
  have h': "sint (64 :: long) = int (length blank_file)"
    by code_simp
  have l': "locate_spec blank_file = None"
    by code_simp
  have e: "in_file (file_env blank_file 64) = Some blank_file \<and> st_size (file_env blank_file 64) = 64
      \<and> fread_all (file_env blank_file 64) blank_file 64 = Some (blank_file, 64)"
    by code_simp
  have found: "findsong skew_file 401 = Some 42 \<and> song_found 42 401 = Some True"
    using l findsong_first_signature [OF h] by simp
  have lost: "findsong blank_file 64 = Some (- 1)
      \<and> (\<exists>con. convert (file_env blank_file 64)
            = Some \<lparr> rc = 0, console = con @ [Song_Not_Found], out_file = None \<rparr>)"
    using l' e findsong_first_signature [OF h'] by simp
  show ?thesis
    using h o l l' found lost by blast
qed

text \<open>
  C4. Let the instrument table lie in the buffer and the sample table have an entry for
  every sample. When record \<open>j\<close> is the only record of the table whose first two bytes are
  0, and the \<^verbatim>\<open>short\<close> \<open>k\<close> in its bytes 2 and 3 lies in \<open>[0, sample_cnt)\<close>, then the loop over
  the instruments ends, prints nothing, and leaves a sample table in which entry \<open>k\<close> has
  as \<open>length_from_instr\<close> the big-endian value of bytes 4 and 5 of the record, as
  \<open>repeat_from_instr\<close> the value of bytes 6 and 7, and a name pointer at byte \<open>0x7a\<close> of the
  record, through which the 30 bytes there are read; its \<open>length_raw\<close> and every other
  entry are as before.
\<close>

theorem join_single_record:
  assumes small: "int (length dat) < 2147483648"
    and lo: "0 \<le> sint io" and hi: "sint io + 152 * sint ic \<le> int (length dat)"
    and alloc: "nat (sint smp) \<le> length si"
    and j: "int j < sint ic"
    and kind: "u16_at dat (sint io + 152 * int j) = 0"
    and only: "\<forall>j'. int j' < sint ic \<and> j' \<noteq> j \<longrightarrow> u16_at dat (sint io + 152 * int j') \<noteq> 0"
    and id: "s16_at dat (sint io + 152 * int j + 2) = k"
    and k0: "0 \<le> k" and k1: "k < sint smp"
  shows "\<exists>si'. join_instruments dat smp ic 0 io (si, con) = Some (si', con)
      \<and> length si' = length si \<and> nat k < length si
      \<and> length_raw (si' ! nat k) = length_raw (si ! nat k)
      \<and> uint (length_from_instr (si' ! nat k)) = u16_at dat (sint io + 152 * int j + 4)
      \<and> uint (repeat_from_instr (si' ! nat k)) = u16_at dat (sint io + 152 * int j + 6)
      \<and> name_from_instr (si' ! nat k) = Some (sint io + 152 * int j + 0x7a)
      \<and> name_bytes dat (si' ! nat k)
          = Some (take 30 (drop (nat (sint io + 152 * int j + 0x7a)) dat))
      \<and> length (take 30 (drop (nat (sint io + 152 * int j + 0x7a)) dat)) = 30
      \<and> (\<forall>k'. k' \<noteq> nat k \<longrightarrow> si' ! k' = si ! k')"
proof -
  have ref: "refers dat (sint io) smp j k"
    using kind id k0 k1 by (simp add: refers_def)
  have last: "\<forall>j'. j < j' \<and> int j' < sint ic \<longrightarrow> \<not> refers dat (sint io) smp j' k"
    using only by (auto simp: refers_def)
  have quiet: "complaints dat (sint io) smp 0 (nat (sint ic)) = []"
  proof (rule complaints_none, intro allI impI)
    fix d assume "d < nat (sint ic)"
    then have d: "int d < sint ic" by simp
    show "\<not> stray dat (sint io + 152 * int d) smp"
    proof (cases "d = j")
      case True
      then show ?thesis using id k0 k1 by (simp add: stray_def)
    next
      case False
      then show ?thesis using only d by (simp add: stray_def)
    qed
  qed
  from join_instruments_table_last [OF small lo hi alloc j ref last, of con] obtain si'
    where run: "join_instruments dat smp ic 0 io (si, con) = Some (si', con)"
      and rest: "length si' = length si" "nat k < length si"
        "length_raw (si' ! nat k) = length_raw (si ! nat k)"
        "uint (length_from_instr (si' ! nat k)) = u16_at dat (sint io + 152 * int j + 4)"
        "uint (repeat_from_instr (si' ! nat k)) = u16_at dat (sint io + 152 * int j + 6)"
        "name_from_instr (si' ! nat k) = Some (sint io + 152 * int j + 0x7a)"
        "name_bytes dat (si' ! nat k)
          = Some (take 30 (drop (nat (sint io + 152 * int j + 0x7a)) dat))"
        "length (take 30 (drop (nat (sint io + 152 * int j + 0x7a)) dat)) = 30"
    unfolding quiet by auto
  have others: "\<forall>k'. k' \<noteq> nat k \<longrightarrow> si' ! k' = si ! k'"
  proof (intro allI impI)
    fix k' assume ne: "k' \<noteq> nat k"
    have "\<forall>d. int d < sint ic \<longrightarrow> \<not> refers dat (sint io) smp d (int k')"
    proof (intro allI impI)
      fix d assume d: "int d < sint ic"
      show "\<not> refers dat (sint io) smp d (int k')"
      proof (cases "d = j")
        case True
        then show ?thesis using id ne k0 by (auto simp: refers_def)
      next
        case False
        then show ?thesis using only d by (simp add: refers_def)
      qed
    qed
    from join_instruments_table_untouched [OF small lo hi run this]
    show "si' ! k' = si ! k'" .
  qed
  show ?thesis using run rest others by blast
qed

theorem join_single_record_witness:
  "join_instruments single_table 2 3 0 3 (raw_info, [Found_Module 0])
     = Some ([\<lparr> length_raw = 7, length_from_instr = 0, repeat_from_instr = 0,
                 name_from_instr = None \<rparr>,
              \<lparr> length_raw = 9, length_from_instr = 0x1234, repeat_from_instr = 0xabcd,
                 name_from_instr = Some 277 \<rparr>], [Found_Module 0])
   \<and> u16_at single_table 159 = 4660 \<and> u16_at single_table 161 = 43981
   \<and> name_bytes single_table
        \<lparr> length_raw = 9, length_from_instr = 0x1234, repeat_from_instr = 0xabcd,
          name_from_instr = Some 277 \<rparr>
      = Some (ascii ''lead guitar, 8 bit, 11 kHz'' @ replicate 4 0x20)"
proof -
  let ?E = "[\<lparr> length_raw = 7, length_from_instr = 0, repeat_from_instr = 0,
                 name_from_instr = None \<rparr>,
              \<lparr> length_raw = 9, length_from_instr = 0x1234, repeat_from_instr = 0xabcd,
                 name_from_instr = Some 277 \<rparr>]"
  have run: "join_instruments single_table 2 3 0 3 (raw_info, [Found_Module 0])
     = Some (?E, [Found_Module 0])"
    by code_simp
  have small: "int (length single_table) < 2147483648" by code_simp
  have lo: "0 \<le> sint (3 :: long)" by simp
  have hi: "sint (3 :: long) + 152 * sint (3 :: long) \<le> int (length single_table)" by code_simp
  have alloc: "nat (sint (2 :: long)) \<le> length raw_info" by (simp add: raw_info_def)
  have j: "int 1 < sint (3 :: long)" by simp
  have kind: "u16_at single_table (sint (3 :: long) + 152 * int 1) = 0" by code_simp
  have r0: "u16_at single_table (sint (3 :: long) + 152 * int 0) \<noteq> 0" by code_simp
  have r2: "u16_at single_table (sint (3 :: long) + 152 * int 2) \<noteq> 0" by code_simp
  have only: "\<forall>j'. int j' < sint (3 :: long) \<and> j' \<noteq> 1
      \<longrightarrow> u16_at single_table (sint (3 :: long) + 152 * int j') \<noteq> 0"
  proof (intro allI impI)
    fix j' :: nat assume "int j' < sint (3 :: long) \<and> j' \<noteq> 1"
    then have "j' = 0 \<or> j' = 2" by auto
    then show "u16_at single_table (sint (3 :: long) + 152 * int j') \<noteq> 0"
      using r0 r2 by auto
  qed
  have id: "s16_at single_table (sint (3 :: long) + 152 * int 1 + 2) = 1" by code_simp
  have k0: "0 \<le> (1 :: int)" by simp
  have k1: "1 < sint (2 :: long)" by simp
  from join_single_record [OF small lo hi alloc j kind only id k0 k1, of "[Found_Module 0]"]
  obtain si' where a: "join_instruments single_table 2 3 0 3 (raw_info, [Found_Module 0])
        = Some (si', [Found_Module 0])"
    and l: "uint (length_from_instr (si' ! nat 1))
        = u16_at single_table (sint (3 :: long) + 152 * int 1 + 4)"
    and r: "uint (repeat_from_instr (si' ! nat 1))
        = u16_at single_table (sint (3 :: long) + 152 * int 1 + 6)"
    and n: "name_bytes single_table (si' ! nat 1)
        = Some (take 30 (drop (nat (sint (3 :: long) + 152 * int 1 + 0x7a)) single_table))"
    by (elim exE conjE)
  have si': "si' = ?E" using a run by simp
  have name: "take 30 (drop 277 single_table)
      = ascii ''lead guitar, 8 bit, 11 kHz'' @ replicate 4 0x20"
    by code_simp
  show ?thesis
    using run l r n name by (simp add: si')
qed

text \<open>
  C5. Let the instrument table lie in the buffer and the sample table have an entry for
  every sample. When two records \<open>j1 < j2\<close> of the table are sampled instruments for the
  same sample \<open>k\<close> in range, and no record after \<open>j2\<close> is one, then the loop ends and entry
  \<open>k\<close> of its sample table has the length, the repeat and the name of record \<open>j2\<close>, the one
  that the loop treats later: the values of the bytes 4 and 5 and of the bytes 6 and 7 of
  that record, and the 30 bytes from its byte \<open>0x7a\<close> on.
\<close>

theorem join_last_record_wins:
  assumes small: "int (length dat) < 2147483648"
    and lo: "0 \<le> sint io" and hi: "sint io + 152 * sint ic \<le> int (length dat)"
    and alloc: "nat (sint smp) \<le> length si"
    and order: "j1 < j2" and j2: "int j2 < sint ic"
    and first: "refers dat (sint io) smp j1 k"
    and second: "refers dat (sint io) smp j2 k"
    and last: "\<forall>j'. j2 < j' \<and> int j' < sint ic \<longrightarrow> \<not> refers dat (sint io) smp j' k"
  shows "\<exists>si' con'. join_instruments dat smp ic 0 io (si, con) = Some (si', con')
      \<and> length si' = length si \<and> nat k < length si
      \<and> length_raw (si' ! nat k) = length_raw (si ! nat k)
      \<and> uint (length_from_instr (si' ! nat k)) = u16_at dat (sint io + 152 * int j2 + 4)
      \<and> uint (repeat_from_instr (si' ! nat k)) = u16_at dat (sint io + 152 * int j2 + 6)
      \<and> name_from_instr (si' ! nat k) = Some (sint io + 152 * int j2 + 0x7a)
      \<and> name_bytes dat (si' ! nat k)
          = Some (take 30 (drop (nat (sint io + 152 * int j2 + 0x7a)) dat))
      \<and> length (take 30 (drop (nat (sint io + 152 * int j2 + 0x7a)) dat)) = 30"
  using join_instruments_table_last [OF small lo hi alloc j2 second last, of con] by blast

theorem join_last_record_wins_witness:
  "join_instruments double_table 2 4 0 1 (raw_info, [Found_Module 0])
     = Some ([\<lparr> length_raw = 7, length_from_instr = 5, repeat_from_instr = 2,
                 name_from_instr = Some 275 \<rparr>,
              \<lparr> length_raw = 9, length_from_instr = 0x1234, repeat_from_instr = 0xabcd,
                 name_from_instr = Some 427 \<rparr>], [Found_Module 0])
   \<and> u16_at double_table 5 = 258 \<and> u16_at double_table 7 = 65534
   \<and> u16_at double_table 309 = 4660 \<and> u16_at double_table 311 = 43981
   \<and> name_bytes double_table
        \<lparr> length_raw = 9, length_from_instr = 0x1234, repeat_from_instr = 0xabcd,
          name_from_instr = Some 427 \<rparr>
      = Some (ascii ''lead guitar, 8 bit, 11 kHz'' @ replicate 4 0x20)"
proof -
  let ?E = "[\<lparr> length_raw = 7, length_from_instr = 5, repeat_from_instr = 2,
                 name_from_instr = Some 275 \<rparr>,
              \<lparr> length_raw = 9, length_from_instr = 0x1234, repeat_from_instr = 0xabcd,
                 name_from_instr = Some 427 \<rparr>]"
  have run: "join_instruments double_table 2 4 0 1 (raw_info, [Found_Module 0])
     = Some (?E, [Found_Module 0])"
    by code_simp
  have small: "int (length double_table) < 2147483648" by code_simp
  have lo: "0 \<le> sint (1 :: long)" by simp
  have hi: "sint (1 :: long) + 152 * sint (4 :: long) \<le> int (length double_table)" by code_simp
  have alloc: "nat (sint (2 :: long)) \<le> length raw_info" by (simp add: raw_info_def)
  have order: "(0 :: nat) < 2" by simp
  have j2: "int 2 < sint (4 :: long)" by simp
  have first: "refers double_table (sint (1 :: long)) 2 0 1" by code_simp
  have second: "refers double_table (sint (1 :: long)) 2 2 1" by code_simp
  have r3: "\<not> refers double_table (sint (1 :: long)) 2 3 1" by code_simp
  have last: "\<forall>j'. 2 < j' \<and> int j' < sint (4 :: long)
      \<longrightarrow> \<not> refers double_table (sint (1 :: long)) 2 j' 1"
  proof (intro allI impI)
    fix j' :: nat assume "2 < j' \<and> int j' < sint (4 :: long)"
    then have "j' = 3" by auto
    then show "\<not> refers double_table (sint (1 :: long)) 2 j' 1" using r3 by simp
  qed
  from join_last_record_wins [OF small lo hi alloc order j2 first second last,
      of "[Found_Module 0]"]
  obtain si' con' where a: "join_instruments double_table 2 4 0 1 (raw_info, [Found_Module 0])
        = Some (si', con')"
    and l: "uint (length_from_instr (si' ! nat 1))
        = u16_at double_table (sint (1 :: long) + 152 * int 2 + 4)"
    and r: "uint (repeat_from_instr (si' ! nat 1))
        = u16_at double_table (sint (1 :: long) + 152 * int 2 + 6)"
    and n: "name_bytes double_table (si' ! nat 1)
        = Some (take 30 (drop (nat (sint (1 :: long) + 152 * int 2 + 0x7a)) double_table))"
    by (elim exE conjE)
  have si': "si' = ?E" using a run by simp
  have name: "take 30 (drop 427 double_table)
      = ascii ''lead guitar, 8 bit, 11 kHz'' @ replicate 4 0x20"
    by code_simp
  have early: "u16_at double_table 5 = 258" "u16_at double_table 7 = 65534" by code_simp+
  show ?thesis
    using run l r n name early by (simp add: si')
qed

text \<open>
  C6. Let the records of the instrument table from record \<open>i\<close> on lie in the buffer and the
  sample table have an entry for every sample. When the first two bytes of record \<open>i\<close> are
  0 and the \<^verbatim>\<open>short\<close> in its bytes 2 and 3 lies outside \<open>[0, sample_cnt)\<close>, the body of the
  loop prints the line about the inconsistent sample id, with the two bytes of the id and
  the number of the record, and leaves the sample table as it was. The loop does not stop
  there: it ends with the result of the loop over the records after \<open>i\<close>, started from the
  unchanged sample table, and its output is the line for record \<open>i\<close> followed by the lines
  for the later records of that kind.
\<close>

theorem join_skips_bad_index:
  assumes small: "int (length dat) < 2147483648"
    and lo: "0 \<le> sint ioff"
    and hi: "sint ioff + 152 * (sint ic - sint i) \<le> int (length dat)"
    and alloc: "nat (sint smp) \<le> length si"
    and more: "i <s ic"
    and bad: "stray dat (sint ioff) smp"
  shows "\<exists>x st'. uint x = u16_at dat (sint ioff + 2)
      \<and> join_record dat smp i ioff (si, con) = Some (si, con @ [Inconsistent_Sample_Id x i])
      \<and> join_instruments dat smp ic i ioff (si, con) = Some st'
      \<and> join_instruments dat smp ic (i + 1) (ioff + 0x98)
            (si, con @ [Inconsistent_Sample_Id x i]) = Some st'
      \<and> snd st' = con @ Inconsistent_Sample_Id x i
            # complaints dat (sint ioff + 152) smp (i + 1) (nat (sint ic - sint i) - 1)"
proof -
  have lt: "sint i < sint ic" using more by (simp add: word_sless_alt)
  have "152 \<le> 152 * (sint ic - sint i)" using lt by simp
  then have b: "sint ioff + 8 \<le> int (length dat)" using hi by linarith
  have al: "nat (sint smp) \<le> length (fst (si, con))" using alloc by simp
  from join_record_defined [OF lo b al, of i] bad obtain x
    where x: "uint x = u16_at dat (sint ioff + 2)"
      and r: "join_record dat smp i ioff (si, con)
                = Some (si, con @ [Inconsistent_Sample_Id x i])"
    by auto
  have "in_long (sint ioff + sint (0x98 :: long))"
    using small lo hi lt by (simp add: in_long_def)
  then have o: "add_long ioff 0x98 = Some (ioff + 0x98)" by (rule add_long_eq_Some)
  have "in_long (sint i + sint (1 :: long))"
    using lt sint_lt [of ic] sint_ge [of i] by (simp add: in_long_def)
  then have n: "add_long i 1 = Some (i + 1)" by (rule add_long_eq_Some)
  have i': "sint (i + 1) = sint i + 1" using sint_add_long [OF n] by simp
  have o': "sint (ioff + 0x98) = sint ioff + 152" using sint_add_long [OF o] by simp
  have p2: "0 \<le> sint (ioff + 0x98)" using o' lo by simp
  have p3: "sint (ioff + 0x98) + 152 * (sint ic - sint (i + 1)) \<le> int (length dat)"
    using o' i' hi by simp
  have p4: "nat (sint smp) \<le> length (fst (si, con @ [Inconsistent_Sample_Id x i]))"
    using alloc by simp
  from join_instruments_table [OF small p2 p3 p4] obtain st'
    where rest: "join_instruments dat smp ic (i + 1) (ioff + 0x98)
            (si, con @ [Inconsistent_Sample_Id x i]) = Some st'"
      and con: "snd st' = (con @ [Inconsistent_Sample_Id x i])
            @ complaints dat (sint (ioff + 0x98)) smp (i + 1) (nat (sint ic - sint (i + 1)))"
    by auto
  have cnt: "nat (sint ic - sint (i + 1)) = nat (sint ic - sint i) - 1"
    using lt i' by simp
  have run: "join_instruments dat smp ic i ioff (si, con) = Some st'"
    using more r o n rest by (subst join_instruments.simps) simp
  have "snd st' = con @ Inconsistent_Sample_Id x i
            # complaints dat (sint ioff + 152) smp (i + 1) (nat (sint ic - sint i) - 1)"
    using con by (simp add: o' cnt)
  with x r run rest show ?thesis by blast
qed

theorem join_skips_bad_index_witness:
  "join_record stray_table 2 1 152 (raw_info, [Found_Module 0])
     = Some (raw_info, [Found_Module 0, Inconsistent_Sample_Id 0xfffe 1])
   \<and> join_instruments stray_table 2 4 1 152 (raw_info, [Found_Module 0])
     = Some ([\<lparr> length_raw = 7, length_from_instr = 0, repeat_from_instr = 0,
                 name_from_instr = None \<rparr>,
              \<lparr> length_raw = 9, length_from_instr = 0x0102, repeat_from_instr = 0xfffe,
                 name_from_instr = Some 426 \<rparr>],
             [Found_Module 0, Inconsistent_Sample_Id 0xfffe 1, Inconsistent_Sample_Id 7 3])
   \<and> join_instruments stray_table 2 4 2 304
        (raw_info, [Found_Module 0, Inconsistent_Sample_Id 0xfffe 1])
     = join_instruments stray_table 2 4 1 152 (raw_info, [Found_Module 0])
   \<and> u16_at stray_table 154 = 65534
   \<and> complaints stray_table 304 2 2 2 = [Inconsistent_Sample_Id 7 3]"
proof -
  let ?E = "[\<lparr> length_raw = 7, length_from_instr = 0, repeat_from_instr = 0,
                 name_from_instr = None \<rparr>,
              \<lparr> length_raw = 9, length_from_instr = 0x0102, repeat_from_instr = 0xfffe,
                 name_from_instr = Some 426 \<rparr>]"
  have step: "join_record stray_table 2 1 152 (raw_info, [Found_Module 0])
     = Some (raw_info, [Found_Module 0, Inconsistent_Sample_Id 0xfffe 1])"
    by code_simp
  have run: "join_instruments stray_table 2 4 1 152 (raw_info, [Found_Module 0])
     = Some (?E, [Found_Module 0, Inconsistent_Sample_Id 0xfffe 1, Inconsistent_Sample_Id 7 3])"
    by code_simp
  have small: "int (length stray_table) < 2147483648" by code_simp
  have lo: "0 \<le> sint (152 :: long)" by simp
  have hi: "sint (152 :: long) + 152 * (sint (4 :: long) - sint (1 :: long))
      \<le> int (length stray_table)" by code_simp
  have alloc: "nat (sint (2 :: long)) \<le> length raw_info" by (simp add: raw_info_def)
  have more: "(1 :: long) <s 4" by (simp add: word_sless_alt)
  have bad: "stray stray_table (sint (152 :: long)) 2" by code_simp
  from join_skips_bad_index [OF small lo hi alloc more bad, of "[Found_Module 0]"]
  obtain x st' where x: "uint x = u16_at stray_table (sint (152 :: long) + 2)"
    and a: "join_record stray_table 2 1 152 (raw_info, [Found_Module 0])
        = Some (raw_info, [Found_Module 0] @ [Inconsistent_Sample_Id x 1])"
    and b: "join_instruments stray_table 2 4 1 152 (raw_info, [Found_Module 0]) = Some st'"
    and c: "join_instruments stray_table 2 4 (1 + 1) (152 + 0x98)
            (raw_info, [Found_Module 0] @ [Inconsistent_Sample_Id x 1]) = Some st'"
    and d: "snd st' = [Found_Module 0] @ Inconsistent_Sample_Id x 1
            # complaints stray_table (sint (152 :: long) + 152) 2 (1 + 1)
                (nat (sint (4 :: long) - sint (1 :: long)) - 1)"
    by (elim exE conjE)
  have xv: "x = 0xfffe" using a step by simp
  have st': "st' = (?E, [Found_Module 0, Inconsistent_Sample_Id 0xfffe 1,
      Inconsistent_Sample_Id 7 3])"
    using b run by simp
  have u: "u16_at stray_table 154 = 65534" using x by (simp add: xv)
  have cs: "complaints stray_table 304 2 2 2 = [Inconsistent_Sample_Id 7 3]"
    using d by (simp add: st' xv)
  have "join_instruments stray_table 2 4 2 304
        (raw_info, [Found_Module 0, Inconsistent_Sample_Id 0xfffe 1])
     = join_instruments stray_table 2 4 1 152 (raw_info, [Found_Module 0])"
    using b c by (simp add: xv)
  with step run u cs show ?thesis by simp
qed

text \<open>
  C7. The program does not test the lengths. For the module whose note offset lies before
  its overview offset the length of the overview section is \<open>-4\<close>; convert goes on to the
  writer, which copies the song section and then takes the length as the unsigned size
  4294967292 of the copy: a read far outside the buffer, so the run is not defined.
\<close>

theorem unordered_offsets_undefined:
  "resolve unordered_module 0 = Some unordered_layout
   \<and> sint (over_len unordered_layout) = - 4
   \<and> unat (over_len unordered_layout) = 4294967292
   \<and> convert (file_env unordered_module 56) = None"
proof -
  let ?e = "file_env unordered_module 56"
  let ?con = "[Source_Size 56, Read_Bytes 56, Found_Module 0]"
  have inp: "in_file ?e = Some unordered_module" "st_size ?e = 56" "stat_ok ?e"
    "malloc_info_ok ?e" "out_ok ?e"
    by (simp_all add: file_env_def)
  have fr: "fread_all ?e unordered_module 56 = Some (unordered_module, 56)"
    by code_simp
  have fs: "findsong unordered_module 56 = Some 0"
    by code_simp
  have sf: "song_found 0 56 = Some True"
    by code_simp
  have rs: "resolve unordered_module 0 = Some unordered_layout"
    by code_simp
  have ga: "gather unordered_module unordered_layout ?con = Some (0, [], ?con)"
    by code_simp
  have len: "sint (over_len unordered_layout) = - 4" "unat (over_len unordered_layout) = 4294967292"
    by (simp_all add: unordered_layout_def)
  have size: "length unordered_module = 56"
    by code_simp
  have song: "fwrite_bytes SOAR_ID 8 [] \<bind>
      write_section STBL_ID (song_cnt unordered_layout) unordered_module
        (song_offset unordered_layout) (song_len unordered_layout)
      = Some (ascii ''SOARV1.0'' @ ascii ''STBL'' @ [0, 0, 0, 1] @ demo_song)"
    by code_simp
  have copy: "peek unordered_module (sint (over_offset unordered_layout))
      (unat (over_len unordered_layout)) = None"
    using size len(2) by (simp add: peek_def unordered_layout_def)
  have over: "write_section OVTB_ID (over_cnt unordered_layout) unordered_module
      (over_offset unordered_layout) (over_len unordered_layout) out = None" for out
    using copy by (simp add: write_section_def fwrite_dat_def)
  have wm: "write_module unordered_module unordered_layout [] 0 = None"
    unfolding write_module_def using song over
    by (simp add: bind_eq_None_conv bind_eq_Some_conv)
  have "convert ?e = None"
    using fr fs sf rs ga wm
    by (simp add: convert_def Let_def inp)
  with rs len show ?thesis by blast
qed



text \<open>
  C9. The program prints that the read failed and goes on. For a file whose size is given
  as 218 bytes and of which 216 bytes are read, convert finds the song in the buffer
  (whose last two bytes are what the memory held) and writes the output file.
\<close>

theorem short_read_continues:
  "convert (file_env demo_module 218) =
     Some \<lparr> rc = 0,
       console = [Source_Size 218, Read_Failed 218 216, Found_Module 0,
         Section_Info ''song'' 40 12 1, Section_Info ''over'' 52 0 0,
         Section_Info ''note'' 52 0 0, Section_Info ''inst'' 52 152 1,
         Section_Info ''wave'' 204 0 0, Section_Info ''adsr'' 204 0 0,
         Section_Info ''amf '' 204 0 0, Section_Info ''smpl'' 204 4 1,
         Conversion_Written],
       out_file = Some demo_output \<rparr>"
  by code_simp

text \<open>
  C10. After the two loops, a sample index in \<open>[0, sample_cnt)\<close> to which no sampled
  instrument with an id in range refers_peek has a null name pointer; the 30-byte read of its
  name is a read through that null pointer, so writing the module is not defined then.
  Writing the names is defined only if every sample index is referred to.
\<close>

theorem unreferenced_sample_null_name:
  assumes g: "gather dat L con = Some (sample_len, si, con')"
    and lo: "0 \<le> k" and hi: "k < sint (sample_cnt L)"
    and un: "\<not> referenced_peek dat L k"
  shows "\<exists>s. entry si k = Some s \<and> name_from_instr s = None \<and> name_bytes dat s = None
           \<and> write_module dat L si sample_len = None"
proof -
  define n where "n = nat k"
  have kn: "int n = k" using lo by (simp add: n_def)
  have n: "n < nat (sint (sample_cnt L))" using lo hi by (simp add: n_def)
  have len: "nat (sint (sample_cnt L)) \<le> length si" using gather_Some(1) [OF g] .
  have null: "name_from_instr (si ! n) = None"
    using gather_Some(4) [OF g] hi un kn by auto
  have "n < length si" using n len by linarith
  then have "k < int (length si)" using kn by linarith
  then have e: "entry si k = Some (si ! n)"
    using lo by (simp add: entry_def n_def)
  have nb: "name_bytes dat (si ! n) = None"
    using null by (simp add: name_bytes_def)
  have mem: "si ! n \<in> set (take (nat (sint (sample_cnt L))) si)"
    using n len by (auto simp: in_set_conv_nth intro!: exI [of _ n])
  have "write_module dat L si sample_len = None"
  proof (cases "write_module dat L si sample_len")
    case None
    then show ?thesis .
  next
    case (Some out)
    from write_module_Some(3) [OF Some] mem have "name_bytes dat (si ! n) \<noteq> None" by blast
    with nb show ?thesis by simp
  qed
  with e null nb show ?thesis by blast
qed

theorem unreferenced_sample_null_name_witness:
  "gather two_module two_layout [] = Some (4, two_info, [])
   \<and> \<not> referenced_peek two_module two_layout 1
   \<and> (\<exists>s. entry two_info 1 = Some s \<and> name_from_instr s = None \<and> name_bytes two_module s = None
          \<and> write_module two_module two_layout two_info 4 = None)"
proof -
  have g: "gather two_module two_layout [] = Some (4, two_info, [])" by code_simp
  have lo: "(0 :: int) \<le> 1" by simp
  have hi: "1 < sint (sample_cnt two_layout)" by (simp add: two_layout_def)
  have un: "\<not> referenced_peek two_module two_layout 1" by code_simp
  show ?thesis
    using g un unreferenced_sample_null_name [OF g lo hi un] by blast
qed

end
